theory Spec2Isabelle
  imports Main "HOL-Library.Char_ord" "HOL-Library.List_Lexorder" "HOL-Library.Multiset"
begin

section \<open>The LLM proxy: \<open>prepareMessages\<close> (server.js)\<close>

text \<open>
  An element of the incoming array is any JSON value. The code only looks at
  \<open>m && m.role === 'system'\<close>, so an element is modelled as \<open>None\<close> (a falsy
  element such as \<open>null\<close>) or an object with its role and content.
\<close>

record chatMessage =
  role :: string
  content :: string

type_synonym chatElem = "chatMessage option"

text \<open>\<open>incomingMessages\<close> is an array or something else (\<open>Array.isArray\<close> decides).\<close>

datatype incoming = NotArray | Arr "chatElem list"

definition MAX_HISTORY :: nat where
  "MAX_HISTORY = 20"

text \<open>\<open>m && m.role === 'system'\<close>\<close>

definition isSystem :: "chatElem \<Rightarrow> bool" where
  "isSystem m = (case m of None \<Rightarrow> False | Some x \<Rightarrow> role x = ''system'')"

text \<open>
  \<open>Array.prototype.slice(start)\<close>: a negative start counts from the end and is
  clamped at 0, a start beyond the length gives the empty array; \<open>slice(-0)\<close> is
  \<open>slice(0)\<close>, the whole array.
\<close>

definition slice_from :: "int \<Rightarrow> 'a list \<Rightarrow> 'a list" where
  "slice_from start xs =
     (let n = int (length xs);
          k = (if start < 0 then max (n + start) 0 else min start n)
      in drop (nat k) xs)"

text \<open>
  The default instruction text differs between the two revisions of server.js (and is
  not ASCII in one of them); it is the parameter \<open>dsi\<close>. The body is the same in both
  revisions.
\<close>

definition prepareMessages :: "string \<Rightarrow> incoming \<Rightarrow> chatElem list" where
  "prepareMessages dsi incomingMessages =
     (let msgs0 = (case incomingMessages of Arr xs \<Rightarrow> xs | NotArray \<Rightarrow> []);
          hasSystem = list_ex isSystem msgs0;
          msgs = (if \<not> hasSystem
                  then Some \<lparr>role = ''system'', content = dsi\<rparr> # msgs0
                  else msgs0)
      in if length msgs > MAX_HISTORY then
           (case msgs of
              [] \<Rightarrow> slice_from (- int MAX_HISTORY) msgs
            | m0 # _ \<Rightarrow>
                if isSystem m0 then
                  (let keep = max 1 MAX_HISTORY;
                       tail = slice_from (- (int keep - 1)) msgs
                   in m0 # tail)
                else slice_from (- int MAX_HISTORY) msgs)
         else msgs)"

section \<open>Conversation ids (index.html)\<close>

text \<open>
  User ids are strings. \<open>Array.prototype.sort()\<close> without a comparator orders strings
  by their code units, a prefix before its extensions: the lexicographic order on
  \<open>char list\<close>. Equal strings are indistinguishable, so the result does not depend
  on the sorting algorithm.
\<close>

text \<open>\<open>Array.prototype.join(sep)\<close> on strings.\<close>

fun join :: "string \<Rightarrow> string list \<Rightarrow> string" where
  "join sep [] = []"
| "join sep [x] = x"
| "join sep (x # y # ys) = x @ sep @ join sep (y # ys)"

text \<open>
  The expression \<open>us.map(u=>u.uid).sort().join('_')\<close>, applied to the list of uids;
  it occurs in \<open>openChat\<close> and in \<open>createGroupBtn.onclick\<close>.
\<close>

definition sortJoin :: "string list \<Rightarrow> string" where
  "sortJoin uids = join ''_'' (sort uids)"

section \<open>The chat client's data (index.html)\<close>

text \<open>
  A reference into the store, \<open>db.ref('chats/' + id)\<close>, is the list of its path
  segments; \<open>`${path}/${key}`\<close> is \<open>path @ [key]\<close>.
\<close>

type_synonym path = "string list"

datatype status = Sent | Delivered | Seen

text \<open>\<open>replyTo = { key:k, text:m.text, senderName:m.senderName }\<close>; a property read from
  a message that lacks it is \<open>undefined\<close>, here \<open>None\<close>.\<close>

record replyRef =
  refKey :: string
  refText :: "string option"
  refSenderName :: "string option"

text \<open>
  A message node of the store, as \<open>mSnap.val()\<close> returns it: a JavaScript object each of
  whose properties may be absent. The same record is the argument of
  \<open>update({...})\<close>, where an absent property is one the update does not touch.
\<close>

record message =
  senderId :: "string option"
  senderName :: "string option"
  senderPic :: "string option"
  msgText :: "string option"
  timestamp :: "nat option"
  status :: "status option"
  msgReplyTo :: "replyRef option"

definition emptyObj :: message where
  "emptyObj = \<lparr>senderId = None, senderName = None, senderPic = None, msgText = None,
                timestamp = None, status = None, msgReplyTo = None\<rparr>"

text \<open>The object literal \<open>{ status: s }\<close>.\<close>

definition statusOnly :: "status \<Rightarrow> message" where
  "statusOnly s = emptyObj\<lparr>status := Some s\<rparr>"

text \<open>An entry of \<open>users/\<close>, or the \<open>{uid, name}\<close> objects built by the client (their
  \<open>photoURL\<close> and \<open>online\<close> are absent, which the code reads as \<open>''\<close> and false).\<close>

record user =
  uid :: string
  name :: string
  photoURL :: string
  online :: bool

text \<open>The signed-in user of the identity provider.\<close>

record authUser =
  authUid :: string
  displayName :: string
  authPhotoURL :: "string option"

text \<open>The group document \<open>{ id, name, members }\<close>; \<open>members\<close> maps uid to name.\<close>

record groupDoc =
  groupId :: string
  groupName :: string
  members :: "string \<rightharpoonup> string"

text \<open>The operations a client issues against the store.\<close>

datatype store_op =
    Push path string message
  | Update path message
  | Remove path
  | SetTyping path bool
  | SetGroup path groupDoc

text \<open>A rendered message: the \<open>div\<close> appended to \<open>messagesEl\<close>, with its
  \<open>dataset.key\<close>, \<open>dataset.path\<close>, its class (outgoing or incoming) and the
  message object its HTML is built from.\<close>

record msgDiv =
  dataKey :: string
  dataPath :: path
  outgoing :: bool
  shown :: message

datatype alert = GroupNameRequired | SelectAtLeastOne

section \<open>The store (external collaborator)\<close>

text \<open>
  The realtime database is not part of the repository. Its contract is taken from the
  interface the client uses: a path-addressed tree in which \<open>push\<close> adds a child under a
  new key, \<open>update\<close> merges the given properties into the node at a reference (creating
  the node when it does not exist), \<open>remove\<close> deletes the node, and \<open>set\<close> replaces the
  node with everything below it. Only the message lists are kept: a store maps the path
  of a conversation's message list to its children, which the store keeps in the order
  of their keys (the lexicographic order, which is the order of the keys that \<open>push\<close>
  generates; keys are unique). Writes are applied one at a time, the last writer winning.
\<close>

type_synonym store = "path \<Rightarrow> (string \<times> message) list"

definition orElse :: "'a option \<Rightarrow> 'a option \<Rightarrow> 'a option" where
  "orElse new old = (case new of None \<Rightarrow> old | Some x \<Rightarrow> Some x)"

definition mergeObj :: "message \<Rightarrow> message \<Rightarrow> message" where
  "mergeObj old upd =
     \<lparr>senderId = orElse (senderId upd) (senderId old),
      senderName = orElse (senderName upd) (senderName old),
      senderPic = orElse (senderPic upd) (senderPic old),
      msgText = orElse (msgText upd) (msgText old),
      timestamp = orElse (timestamp upd) (timestamp old),
      status = orElse (status upd) (status old),
      msgReplyTo = orElse (msgReplyTo upd) (msgReplyTo old)\<rparr>"

text \<open>\<open>update\<close> at child \<open>k\<close>: the node under that key is merged with the given
  properties; when there is none, a node with just these properties is created at the
  place of its key.\<close>

definition updateChild :: "string \<Rightarrow> message \<Rightarrow> (string \<times> message) list \<Rightarrow> (string \<times> message) list" where
  "updateChild k u xs =
     (if k \<in> set (map fst xs)
      then map (\<lambda>(k', m). if k' = k then (k', mergeObj m u) else (k', m)) xs
      else if u = emptyObj then xs
      else insort_key fst (k, u) xs)"

text \<open>\<open>push\<close> (or \<open>set\<close>) of child \<open>k\<close>: the node under that key is replaced, or a new one
  is added at the place of its key.\<close>

definition setChild :: "string \<Rightarrow> message \<Rightarrow> (string \<times> message) list \<Rightarrow> (string \<times> message) list" where
  "setChild k v xs =
     (if k \<in> set (map fst xs)
      then map (\<lambda>(k', m). if k' = k then (k', v) else (k', m)) xs
      else insort_key fst (k, v) xs)"

definition removeChild :: "string \<Rightarrow> (string \<times> message) list \<Rightarrow> (string \<times> message) list" where
  "removeChild k xs = filter (\<lambda>(k', m). k' \<noteq> k) xs"

definition apply_op :: "store_op \<Rightarrow> store \<Rightarrow> store" where
  "apply_op w s =
     (case w of
        Push p k m \<Rightarrow> s(p := setChild k m (s p))
      | Update r u \<Rightarrow>
          (case rev r of [] \<Rightarrow> s | k # rp \<Rightarrow> s(rev rp := updateChild k u (s (rev rp))))
      | Remove r \<Rightarrow>
          (case rev r of [] \<Rightarrow> s | k # rp \<Rightarrow> s(rev rp := removeChild k (s (rev rp))))
      | SetTyping r b \<Rightarrow> s
      | SetGroup r g \<Rightarrow> s(r @ [''chats''] := []))"

definition apply_ops :: "store_op list \<Rightarrow> store \<Rightarrow> store" where
  "apply_ops ws s = fold apply_op ws s"

text \<open>The message list that a write touches, if any.\<close>

definition affected :: "store_op \<Rightarrow> path option" where
  "affected w =
     (case w of
        Push p k m \<Rightarrow> Some p
      | Update r u \<Rightarrow> (case rev r of [] \<Rightarrow> None | k # rp \<Rightarrow> Some (rev rp))
      | Remove r \<Rightarrow> (case rev r of [] \<Rightarrow> None | k # rp \<Rightarrow> Some (rev rp))
      | SetTyping r b \<Rightarrow> None
      | SetGroup r g \<Rightarrow> Some (r @ [''chats'']))"

text \<open>
  The client: the script's variables and the parts of the document the handlers read
  or write. \<open>currentUser\<close> is the signed-in user: every handler below is reachable only
  after \<open>onAuthStateChanged\<close> has set it (the chat list is filled by \<open>loadChats\<close>, the
  input and the send button are disabled until \<open>openChat\<close>). \<open>messageListeners\<close> and
  \<open>typingListeners\<close> are the paths that carry a \<open>'value'\<close> listener installed by
  \<open>loadMessages\<close> and \<open>openChat\<close>; \<open>off()\<close> removes every listener of a path, so a
  path carries at most one. Styling (sidebar, back button, avatar, scrolling) is left out.

  The database client keeps a local copy of the lists it listens to, \<open>cache\<close>: a write
  of the script is applied to it at once and the \<open>'value'\<close> listener of the list runs
  inside the call of \<open>push\<close>, \<open>update\<close>, \<open>remove\<close> or \<open>set\<close>, before that call returns.
  Whether the listener also runs for a write that changes nothing is a property of the
  database client, not of the script: it is the flag \<open>notifyUnchanged\<close>, and every
  general theorem below holds for both of its values.
\<close>

record client =
  currentUser :: authUser
  currentChatId :: "string option"
  isGroup :: bool
  chatUsers :: "user list"
  replyTo :: "replyRef option"
  chatNameText :: string
  messageInputValue :: string
  messageInputDisabled :: bool
  sendBtnDisabled :: bool
  messagesEl :: "msgDiv list"
  replyTextContent :: string
  replyPreviewShown :: bool
  typingVisible :: bool
  deleteMenuShown :: bool
  deleteMenuKey :: "string option"
  deleteMenuPath :: "path option"
  deleteMenuInDocument :: bool
  alerts :: "alert list"
  messageListeners :: "path list"
  typingListeners :: "path list"
  cache :: store
  notifyUnchanged :: bool

text \<open>How a handler ends: it returns, or an exception leaves it with the state reached
  so far.\<close>

datatype 'a outcome = Returned 'a | Threw 'a

fun result :: "'a outcome \<Rightarrow> 'a" where
  "result (Returned x) = x"
| "result (Threw x) = x"

text \<open>How the promise of a store write settles.\<close>

datatype 'a settled = Fulfilled 'a | Rejected

section \<open>JavaScript helpers\<close>

text \<open>A template literal prints \<open>undefined\<close> and \<open>null\<close> by name.\<close>

definition str_undefined :: "string option \<Rightarrow> string" where
  "str_undefined x = (case x of None \<Rightarrow> ''undefined'' | Some s \<Rightarrow> s)"

definition str_null :: "string option \<Rightarrow> string" where
  "str_null x = (case x of None \<Rightarrow> ''null'' | Some s \<Rightarrow> s)"

text \<open>
  \<open>String.prototype.trim\<close>. A \<open>char\<close> stands for a code unit below 256; the white space
  and line terminators that \<open>trim\<close> strips in that range are U+0009 to U+000D, U+0020
  and U+00A0.
\<close>

definition is_ws :: "char \<Rightarrow> bool" where
  "is_ws c = (c \<in> set [CHR 0x09, CHR 0x0A, CHR 0x0B, CHR 0x0C, CHR 0x0D, CHR 0x20, CHR 0xA0])"

definition trim :: "string \<Rightarrow> string" where
  "trim s = rev (dropWhile is_ws (rev (dropWhile is_ws s)))"

text \<open>The status of the message stored under key \<open>k\<close> of the list at \<open>p\<close>.\<close>

definition statusAt :: "store \<Rightarrow> path \<Rightarrow> string \<Rightarrow> status option" where
  "statusAt s p k = (case map_of (s p) k of None \<Rightarrow> None | Some m \<Rightarrow> status m)"

text \<open>The order Sent < Delivered < Seen, with "no status" below all.\<close>

fun rank :: "status option \<Rightarrow> nat" where
  "rank None = 0"
| "rank (Some Sent) = 1"
| "rank (Some Delivered) = 2"
| "rank (Some Seen) = 3"

text \<open>A sequence of writes, applied in the given order, never lowers the status of the
  message at \<open>(p, k)\<close>.\<close>

fun monotone_at :: "store \<Rightarrow> store_op list \<Rightarrow> path \<Rightarrow> string \<Rightarrow> bool" where
  "monotone_at s [] p k = True"
| "monotone_at s (w # ws) p k =
     (rank (statusAt s p k) \<le> rank (statusAt (apply_op w s) p k)
      \<and> monotone_at (apply_op w s) ws p k)"

section \<open>Opening a conversation and subscribing\<close>

text \<open>\<open>{ uid:currentUser.uid, name:currentUser.displayName }\<close>\<close>

definition selfEntry :: "client \<Rightarrow> user" where
  "selfEntry cl = \<lparr>uid = authUid (currentUser cl), name = displayName (currentUser cl),
                    photoURL = [], online = False\<rparr>"

text \<open>\<open>isGroup ? `groups/${currentChatId}/chats` : `chats/${currentChatId}`\<close>\<close>

definition messagesPath :: "client \<Rightarrow> path" where
  "messagesPath cl =
     (if isGroup cl then [''groups'', str_null (currentChatId cl), ''chats'']
      else [''chats'', str_null (currentChatId cl)])"

text \<open>\<open>'typing/' + currentChatId\<close>\<close>

definition typingPath :: "client \<Rightarrow> path" where
  "typingPath cl = [''typing'', str_null (currentChatId cl)]"

text \<open>\<open>loadMessages\<close>: \<open>db.ref(path).off(); db.ref(path).on('value', ...)\<close>, with the path
  computed from the current \<open>isGroup\<close> and \<open>currentChatId\<close>. The first snapshot of the
  path reaches the new listener as a notification of the store (\<open>deliverMessages\<close>).\<close>

definition loadMessages :: "client \<Rightarrow> client" where
  "loadMessages cl =
     (let path = messagesPath cl
      in cl\<lparr>messageListeners := removeAll path (messageListeners cl) @ [path]\<rparr>)"

text \<open>The statements of \<open>openChat\<close> after the header is set: enable the input and the
  button, \<open>loadMessages()\<close>, then \<open>off()\<close> and \<open>on('value', ...)\<close> on the typing path.\<close>

definition openChat_subscribe :: "client \<Rightarrow> client" where
  "openChat_subscribe cl =
     (let cl1 = loadMessages (cl\<lparr>messageInputDisabled := False, sendBtnDisabled := False\<rparr>);
          tp = typingPath cl1
      in cl1\<lparr>typingListeners := removeAll tp (typingListeners cl1) @ [tp]\<rparr>)"

text \<open>\<open>openChat(users, gid=null)\<close>. In the one-to-one branch \<open>users[0]\<close> of an empty list is
  \<open>undefined\<close> and reading its name throws.\<close>

definition openChat :: "user list \<Rightarrow> string option \<Rightarrow> client \<Rightarrow> client outcome" where
  "openChat users gid cl =
     (let cl1 = cl\<lparr>isGroup := length users > 1\<rparr>;
          cl2 = cl1\<lparr>chatUsers := users @ [selfEntry cl1]\<rparr>;
          computed = sortJoin (map uid (chatUsers cl2));
          cl3 = cl2\<lparr>currentChatId :=
                  Some (case gid of None \<Rightarrow> computed
                        | Some g \<Rightarrow> if g = [] then computed else g)\<rparr>
      in if isGroup cl3 then
           Returned (openChat_subscribe
             (cl3\<lparr>chatNameText := ''Group: '' @ join '', '' (map name users)\<rparr>))
         else
           (case users of
              [] \<Rightarrow> Threw cl3
            | other # _ \<Rightarrow> Returned (openChat_subscribe (cl3\<lparr>chatNameText := name other\<rparr>))))"

section \<open>The listener of a message list\<close>

text \<open>
  The body of \<open>snap.forEach\<close> in the listener of \<open>loadMessages\<close>, run on the children
  that are left of the snapshot. The state is the local copy of the list, the \<open>div\<close>s of
  \<open>messagesEl\<close> and the writes issued so far. For each child, in order: the mine-check;
  for a message of someone else that is not Seen the call of
  \<open>update({ status:'Seen' })\<close>, inside which the listener of the same list runs again on
  the new local value (\<open>messagesEl.innerHTML=''\<close>, then its own loop) before the outer
  loop goes on with its old snapshot; the local \<open>m.status='Seen'\<close>; and the \<open>div\<close> that is
  appended. The first argument bounds the nesting of the listener inside itself; with
  none left the result is \<open>None\<close>.
\<close>

fun forEachMessage :: "nat \<Rightarrow> bool \<Rightarrow> path \<Rightarrow> string \<Rightarrow> (string \<times> message) list
    \<Rightarrow> (string \<times> message) list \<times> msgDiv list \<times> store_op list
    \<Rightarrow> ((string \<times> message) list \<times> msgDiv list \<times> store_op list) option" where
  "forEachMessage n echo path me [] st = Some st"
| "forEachMessage n echo path me ((k, m) # rest) (xs, divs, ws) =
     (let mine = (senderId m = Some me);
          markSeen = (\<not> mine \<and> status m \<noteq> Some Seen);
          m' = (if markSeen then m\<lparr>status := Some Seen\<rparr> else m);
          d = \<lparr>dataKey = k, dataPath = path, outgoing = mine, shown = m'\<rparr>
      in if markSeen then
           (let xs' = updateChild k (statusOnly Seen) xs;
                ws' = ws @ [Update (path @ [k]) (statusOnly Seen)]
            in if echo \<or> xs' \<noteq> xs then
                 (case n of
                    0 \<Rightarrow> None
                  | Suc n' \<Rightarrow>
                      (case forEachMessage n' echo path me xs' (xs', [], ws') of
                         None \<Rightarrow> None
                       | Some (ys, divs1, ws1) \<Rightarrow>
                           forEachMessage n echo path me rest (ys, divs1 @ [d], ws1)))
               else forEachMessage n echo path me rest (xs', divs @ [d], ws'))
         else forEachMessage n echo path me rest (xs, divs @ [d], ws))"

text \<open>
  The listener installed by \<open>loadMessages\<close> for \<open>path\<close>, run on the local value of the
  list: \<open>messagesEl.innerHTML=''\<close>, then the loop. The nesting never exceeds the number of
  children (lemma \<open>forEachMessage_returns\<close>), which is the bound given.
\<close>

definition onMessagesValue :: "path \<Rightarrow> client \<Rightarrow> (client \<times> store_op list) option" where
  "onMessagesValue path cl =
     (case forEachMessage (length (cache cl path)) (notifyUnchanged cl) path
             (authUid (currentUser cl)) (cache cl path) (cache cl path, [], []) of
        None \<Rightarrow> None
      | Some (xs, divs, ws) \<Rightarrow>
          Some (cl\<lparr>cache := (cache cl)(path := xs), messagesEl := divs\<rparr>, ws))"

text \<open>The store notifies a client of the value at \<open>path\<close>: the listener runs if the client
  has one on that path.\<close>

definition deliverMessages :: "path \<Rightarrow> (string \<times> message) list \<Rightarrow> client \<Rightarrow> (client \<times> store_op list) option" where
  "deliverMessages path snap cl =
     (if path \<in> set (messageListeners cl)
      then onMessagesValue path (cl\<lparr>cache := (cache cl)(path := snap)\<rparr>)
      else Some (cl, []))"

text \<open>
  A write issued by the script outside the listener: it is applied to the local copy,
  sent to the store, and the listener of the list it touches, if the client has one,
  runs before the call returns. The result is the client and the writes issued, this
  one first.
\<close>

definition localWrite :: "store_op \<Rightarrow> client \<Rightarrow> (client \<times> store_op list) option" where
  "localWrite w cl =
     (let cl1 = cl\<lparr>cache := apply_op w (cache cl)\<rparr>
      in case affected w of
           None \<Rightarrow> Some (cl1, [w])
         | Some p \<Rightarrow>
             if p \<in> set (messageListeners cl) \<and> (notifyUnchanged cl \<or> cache cl1 p \<noteq> cache cl p)
             then (case onMessagesValue p cl1 of
                     None \<Rightarrow> None
                   | Some (cl2, ws) \<Rightarrow> Some (cl2, w # ws))
             else Some (cl1, [w]))"

text \<open>The typing listener: \<open>Object.keys(d).some(uid => uid!==currentUser.uid && d[uid])\<close>.\<close>

definition onTypingValue :: "(string \<times> bool) list \<Rightarrow> client \<Rightarrow> client" where
  "onTypingValue d cl =
     cl\<lparr>typingVisible := list_ex (\<lambda>(u, v). u \<noteq> authUid (currentUser cl) \<and> v) d\<rparr>"

definition deliverTyping :: "path \<Rightarrow> (string \<times> bool) list \<Rightarrow> client \<Rightarrow> client" where
  "deliverTyping tp d cl = (if tp \<in> set (typingListeners cl) then onTypingValue d cl else cl)"

section \<open>Replying and sending\<close>

text \<open>\<open>handleReplyClick(m,k)\<close>: the assignment to \<open>replyTo\<close> comes first; \<open>m.text.slice(0,50)\<close>
  throws when the message has no text.\<close>

definition handleReplyClick :: "message \<Rightarrow> string \<Rightarrow> client \<Rightarrow> client outcome" where
  "handleReplyClick m k cl =
     (let cl1 = cl\<lparr>replyTo := Some \<lparr>refKey = k, refText = msgText m, refSenderName = senderName m\<rparr>\<rparr>
      in case msgText m of
           None \<Rightarrow> Threw cl1
         | Some t \<Rightarrow>
             Returned (cl1\<lparr>replyTextContent := str_undefined (senderName m) @ '': '' @ take 50 t,
                            replyPreviewShown := True\<rparr>))"

definition cancelReply :: "client \<Rightarrow> client" where
  "cancelReply cl = cl\<lparr>replyTo := None, replyPreviewShown := False\<rparr>"

text \<open>The database client refuses a value that holds \<open>undefined\<close> in a property: \<open>push\<close>
  throws before anything is written. Of the message built by the send handler only the
  properties copied into \<open>replyTo\<close> can be \<open>undefined\<close>.\<close>

definition hasUndefined :: "replyRef option \<Rightarrow> bool" where
  "hasUndefined r =
     (case r of None \<Rightarrow> False | Some x \<Rightarrow> refText x = None \<or> refSenderName x = None)"

text \<open>
  \<open>sendBtn.onclick\<close>, up to and including the registration of the continuation.
  \<open>now\<close> is \<open>Date.now()\<close> and \<open>k\<close> the key that \<open>push\<close> generates. The listener of the chat
  runs inside \<open>push\<close>; then the input is cleared, the reply cancelled and the typing flag
  reset. (The typing listener that this last write wakes recomputes the indicator from
  the flags of the other users, which the write does not touch; it is left out.)
\<close>

definition sendBtn_onclick :: "nat \<Rightarrow> string \<Rightarrow> client \<Rightarrow> (client \<times> store_op list) outcome option" where
  "sendBtn_onclick now k cl =
     (let txt = trim (messageInputValue cl)
      in if txt = [] then Some (Returned (cl, []))
         else
           (let msg = \<lparr>senderId = Some (authUid (currentUser cl)),
                       senderName = Some (displayName (currentUser cl)),
                       senderPic = Some (case authPhotoURL (currentUser cl) of
                                           None \<Rightarrow> [] | Some u \<Rightarrow> u),
                       msgText = Some txt,
                       timestamp = Some now,
                       status = Some Sent,
                       msgReplyTo = replyTo cl\<rparr>
            in if hasUndefined (replyTo cl) then Some (Threw (cl, []))
               else
                 (case localWrite (Push (messagesPath cl) k msg) cl of
                    None \<Rightarrow> None
                  | Some (cl1, ws) \<Rightarrow>
                      Some (Returned
                        (cancelReply (cl1\<lparr>messageInputValue := []\<rparr>),
                         ws @ [SetTyping (typingPath cl @ [authUid (currentUser cl)]) False])))))"

text \<open>
  The continuation \<open>ref.then(r=>r.update({ status:'Delivered' }))\<close>: it runs when the
  append is acknowledged, with the reference of the new child. There is no rejection
  handler: when the append fails the rejection stays unhandled and no statement of the
  script runs. (What the database client does with its local copy of a rejected write is
  not part of the script and is not modelled.)
\<close>

definition push_then :: "path settled \<Rightarrow> client \<Rightarrow> (client \<times> store_op list) outcome option" where
  "push_then res cl =
     (case res of
        Fulfilled r \<Rightarrow> map_option Returned (localWrite (Update r (statusOnly Delivered)) cl)
      | Rejected \<Rightarrow> Some (Threw (cl, [])))"

text \<open>The writes a handler issued (none when it did not end).\<close>

definition issued :: "(client \<times> store_op list) outcome option \<Rightarrow> store_op list" where
  "issued r = (case r of None \<Rightarrow> [] | Some x \<Rightarrow> snd (result x))"

section \<open>Deleting\<close>

text \<open>\<open>showDeleteMenu(x,y,el)\<close>\<close>

definition showDeleteMenu :: "msgDiv \<Rightarrow> client \<Rightarrow> client" where
  "showDeleteMenu el cl =
     cl\<lparr>deleteMenuShown := True, deleteMenuKey := Some (dataKey el),
        deleteMenuPath := Some (dataPath el)\<rparr>"

text \<open>Removing the first element of the view whose \<open>data-key\<close> is \<open>k\<close>.\<close>

fun removeFirst :: "string \<Rightarrow> msgDiv list \<Rightarrow> msgDiv list" where
  "removeFirst k [] = []"
| "removeFirst k (d # ds) = (if dataKey d = k then ds else d # removeFirst k ds)"

text \<open>
  \<open>delForMe.onclick\<close>: \<open>document.querySelector(`[data-key="${deleteMenu.dataset.key}"]`)\<close>
  is the first element of the document with that attribute. The message \<open>div\<close>s come
  before the menu in the document; the menu carries the attribute itself once
  \<open>showDeleteMenu\<close> has set it. With no match \<open>null.remove()\<close> throws.
\<close>

definition delForMe_onclick :: "client \<Rightarrow> (client \<times> store_op list) outcome" where
  "delForMe_onclick cl =
     (let k = str_undefined (deleteMenuKey cl)
      in if list_ex (\<lambda>d. dataKey d = k) (messagesEl cl) then
           Returned (cl\<lparr>messagesEl := removeFirst k (messagesEl cl), deleteMenuShown := False\<rparr>, [])
         else if deleteMenuInDocument cl \<and> deleteMenuKey cl \<noteq> None then
           Returned (cl\<lparr>deleteMenuInDocument := False, deleteMenuShown := False\<rparr>, [])
         else Threw (cl, []))"

text \<open>\<open>delForAll.onclick\<close>:
  \<open>db.ref(`${deleteMenu.dataset.path}/${deleteMenu.dataset.key}`).remove()\<close>, inside which
  the listener of that list runs, then the menu is hidden.\<close>

definition delForAll_onclick :: "client \<Rightarrow> (client \<times> store_op list) option" where
  "delForAll_onclick cl =
     (case localWrite
             (Remove ((case deleteMenuPath cl of None \<Rightarrow> [''undefined''] | Some p \<Rightarrow> p)
                      @ [str_undefined (deleteMenuKey cl)])) cl of
        None \<Rightarrow> None
      | Some (cl1, ws) \<Rightarrow> Some (cl1\<lparr>deleteMenuShown := False\<rparr>, ws))"

section \<open>Creating a group\<close>

text \<open>
  \<open>createGroupBtn.onclick\<close>, with the value of the name input and the checked members
  (\<open>{ uid:i.value, name:i.dataset.name }\<close>) as arguments. The continuation of \<open>set\<close>
  (closing the dialog, \<open>loadGroups\<close>) is left out.
\<close>

definition createGroupBtn_onclick :: "string \<Rightarrow> user list \<Rightarrow> client \<Rightarrow> (client \<times> store_op list) option" where
  "createGroupBtn_onclick nameInput selected cl =
     (let gname = trim nameInput
      in if gname = [] then Some (cl\<lparr>alerts := alerts cl @ [GroupNameRequired]\<rparr>, [])
         else if length selected < 1 then Some (cl\<lparr>alerts := alerts cl @ [SelectAtLeastOne]\<rparr>, [])
         else
           (let mems = selected @ [selfEntry cl];
                gid = sortJoin (map uid mems)
            in localWrite (SetGroup [''groups'', gid]
                       \<lparr>groupId = gid, groupName = gname,
                        members = fold (\<lambda>u o'. o'(uid u \<mapsto> name u)) mems Map.empty\<rparr>) cl))"

text \<open>The id of the group document that a run of \<open>createGroupBtn.onclick\<close> wrote, if it
  wrote one.\<close>

definition createdGroupId :: "(client \<times> store_op list) option \<Rightarrow> string option" where
  "createdGroupId r = (case r of Some (c, [SetGroup p g]) \<Rightarrow> Some (groupId g) | _ \<Rightarrow> None)"

section \<open>The state after sign-in\<close>

text \<open>The state of the script after sign-in, before any conversation is opened
  (\<open>let currentUser=null, currentChatId=null, isGroup=false, chatUsers=[], ...,
  replyTo=null\<close> and the document as written), with nothing in the local copy. The
  database client is taken not to notify of writes that change nothing.\<close>

definition initialClient :: "authUser \<Rightarrow> client" where
  "initialClient u =
     \<lparr>currentUser = u, currentChatId = None, isGroup = False, chatUsers = [],
      replyTo = None, chatNameText = ''Select a chat'', messageInputValue = [],
      messageInputDisabled = True, sendBtnDisabled = True, messagesEl = [],
      replyTextContent = [], replyPreviewShown = False, typingVisible = False,
      deleteMenuShown = False, deleteMenuKey = None, deleteMenuPath = None,
      deleteMenuInDocument = True, alerts = [], messageListeners = [],
      typingListeners = [], cache = (\<lambda>p. []), notifyUnchanged = False\<rparr>"

section \<open>Notions used in the proofs about the listener\<close>

text \<open>A child that the listener marks: a message of someone else (\<open>!mine\<close>) whose status
  is not Seen.\<close>

definition unseen :: "string \<Rightarrow> string \<times> message \<Rightarrow> bool" where
  "unseen me e = (senderId (snd e) \<noteq> Some me \<and> status (snd e) \<noteq> Some Seen)"

text \<open>How many children of a list are still to be marked.\<close>

definition pending :: "string \<Rightarrow> (string \<times> message) list \<Rightarrow> nat" where
  "pending me xs = length (filter (unseen me) xs)"

text \<open>The \<open>div\<close> that the loop appends for a child.\<close>

definition mkDiv :: "path \<Rightarrow> string \<Rightarrow> string \<times> message \<Rightarrow> msgDiv" where
  "mkDiv path me e =
     \<lparr>dataKey = fst e, dataPath = path, outgoing = (senderId (snd e) = Some me),
      shown = (if unseen me e then (snd e)\<lparr>status := Some Seen\<rparr> else snd e)\<rparr>"

text \<open>What \<open>update({ status:'Seen' })\<close> at key \<open>k\<close> does to one child of the list.\<close>

definition markAt :: "string \<Rightarrow> string \<times> message \<Rightarrow> string \<times> message" where
  "markAt k e = (if fst e = k then (fst e, mergeObj (snd e) (statusOnly Seen)) else e)"

text \<open>The loop, started with bound \<open>n\<close> on the children \<open>rest\<close> and the local copy \<open>xs\<close>,
  ends, and leaves no more children to be marked than there were.\<close>

definition returnsAt :: "nat \<Rightarrow> bool \<Rightarrow> path \<Rightarrow> string \<Rightarrow> (string \<times> message) list
    \<Rightarrow> (string \<times> message) list \<Rightarrow> bool" where
  "returnsAt n echo path me rest xs =
     (\<forall>divs ws. \<exists>ys divs' ws'.
        forEachMessage n echo path me rest (xs, divs, ws) = Some (ys, divs', ws')
        \<and> pending me ys \<le> pending me xs)"

section \<open>A scenario: users u1, u2 and u3\<close>

text \<open>Concrete users, messages and clients on which the theorems are instantiated.
  \<open>userDoc\<close> is the entry that sign-in writes under \<open>users/\<close>; \<open>textMessage\<close> is a message
  as the send handler builds it, with a given status.\<close>

definition userA :: authUser where
  "userA = \<lparr>authUid = ''u1'', displayName = ''A'', authPhotoURL = None\<rparr>"

definition userB :: authUser where
  "userB = \<lparr>authUid = ''u2'', displayName = ''B'', authPhotoURL = None\<rparr>"

definition userC :: authUser where
  "userC = \<lparr>authUid = ''u3'', displayName = ''C'', authPhotoURL = None\<rparr>"

definition userDoc :: "authUser \<Rightarrow> user" where
  "userDoc u = \<lparr>uid = authUid u, name = displayName u,
                 photoURL = (case authPhotoURL u of None \<Rightarrow> [] | Some p \<Rightarrow> p), online = True\<rparr>"

definition textMessage :: "authUser \<Rightarrow> string \<Rightarrow> nat \<Rightarrow> status \<Rightarrow> message" where
  "textMessage u txt t st =
     \<lparr>senderId = Some (authUid u), senderName = Some (displayName u),
      senderPic = Some (case authPhotoURL u of None \<Rightarrow> [] | Some p \<Rightarrow> p),
      msgText = Some txt, timestamp = Some t, status = Some st, msgReplyTo = None\<rparr>"

definition chatAB :: path where
  "chatAB = [''chats'', ''u1_u2'']"

definition snapAB :: "(string \<times> message) list" where
  "snapAB = [(''m1'', textMessage userA ''hi'' 100 Sent), (''m2'', textMessage userB ''yo'' 101 Delivered)]"

definition storeAB :: store where
  "storeAB = (\<lambda>p. [])(chatAB := snapAB)"

definition clientA :: client where
  "clientA = result (openChat [userDoc userB] None (initialClient userA))"

definition clientB :: client where
  "clientB = result (openChat [userDoc userA] None (initialClient userB))"

text \<open>User u2, in the chat with u1, after the store has notified it of \<open>snapAB\<close>.\<close>

definition clientB_shown :: client where
  "clientB_shown = (case deliverMessages chatAB snapAB clientB of Some r \<Rightarrow> fst r | None \<Rightarrow> clientB)"

text \<open>User u1, in the chat with u2, types \<open>hi\<close> and sends at time 100; the new key is m1.\<close>

definition sendAB :: "(client \<times> store_op list) outcome option" where
  "sendAB = sendBtn_onclick 100 ''m1'' (clientA\<lparr>messageInputValue := ''hi''\<rparr>)"

text \<open>The client of u1 after that handler.\<close>

definition clientA_sent :: client where
  "clientA_sent = (case sendAB of Some r \<Rightarrow> fst (result r) | None \<Rightarrow> clientA)"

text \<open>The store once the writes of that send (on an empty store) are applied.\<close>

definition storeSent :: store where
  "storeSent = apply_ops (issued sendAB) (\<lambda>p. [])"

text \<open>The writes that u2's client issues when it is notified of the new message.\<close>

definition seenByB :: "store_op list" where
  "seenByB = (case deliverMessages chatAB (storeSent chatAB) clientB of Some r \<Rightarrow> snd r | None \<Rightarrow> [])"

text \<open>The writes that u1's client issues when the append is acknowledged.\<close>

definition deliveredByA :: "store_op list" where
  "deliveredByA = issued (push_then (Fulfilled (chatAB @ [''m1''])) clientA_sent)"

text \<open>User u1 then opens the chat with u3.\<close>

definition clientA_switched :: client where
  "clientA_switched = result (openChat [userDoc userC] None clientA)"

text \<open>The \<open>replyTo\<close> property of the message that a run of the send handler appends.\<close>

definition pushedReplyRef :: "store_op list \<Rightarrow> replyRef option" where
  "pushedReplyRef ws = (case ws of Push p k m # rest \<Rightarrow> msgReplyTo m | _ \<Rightarrow> None)"

text \<open>A message body of 51 characters.\<close>

definition longBody :: string where
  "longBody = replicate 51 (CHR ''a'')"

section \<open>Properties of \<open>prepareMessages\<close>\<close>

lemma slice_from_neg: "0 < n \<Longrightarrow> slice_from (- int n) xs = drop (length xs - n) xs"
  by (auto simp: slice_from_def Let_def max_def nat_diff_distrib' intro: arg_cong[where f="\<lambda>k. drop k xs"])

lemma slice_from_19: "slice_from (- 19) xs = drop (length xs - 19) xs"
  using slice_from_neg[of 19 xs] by simp

lemma slice_from_20: "slice_from (- 20) xs = drop (length xs - 20) xs"
  using slice_from_neg[of 20 xs] by simp

lemma drop_cons_trim: "19 < length xs \<Longrightarrow> drop (length xs - 18) (x # xs) = drop (length xs - 19) xs"
proof -
  assume "19 < length xs"
  then have "length xs - 18 = Suc (length xs - 19)" by arith
  then show ?thesis by simp
qed

lemma prepareMessages_no_system:
  "\<not> list_ex isSystem xs \<Longrightarrow>
   prepareMessages dsi (Arr xs) = Some \<lparr>role = ''system'', content = dsi\<rparr> # drop (length xs - 19) xs"
  by (auto simp: prepareMessages_def Let_def MAX_HISTORY_def isSystem_def slice_from_19 drop_cons_trim)

lemma prepareMessages_length: "length (prepareMessages dsi inc) \<le> MAX_HISTORY"
  by (cases inc) (auto simp: prepareMessages_def Let_def MAX_HISTORY_def slice_from_19 slice_from_20 split: list.splits)

lemma prepareMessages_leading_system:
  "isSystem m0 \<Longrightarrow> length (m0 # rest) > MAX_HISTORY \<Longrightarrow>
   prepareMessages dsi (Arr (m0 # rest)) = m0 # drop (length rest - 19) rest"
  by (auto simp: prepareMessages_def Let_def MAX_HISTORY_def slice_from_19 drop_cons_trim)

lemma prepareMessages_system_not_first:
  "list_ex isSystem (m0 # rest) \<Longrightarrow> \<not> isSystem m0 \<Longrightarrow> length (m0 # rest) > MAX_HISTORY \<Longrightarrow>
   prepareMessages dsi (Arr (m0 # rest)) = drop (length rest - 20) rest"
proof -
  assume h: "list_ex isSystem (m0 # rest)" "\<not> isSystem m0" "length (m0 # rest) > MAX_HISTORY"
  then have "length rest - 19 = Suc (length rest - 20)" by (simp add: MAX_HISTORY_def)
  then have "drop (length rest - 19) (m0 # rest) = drop (length rest - 20) rest" by simp
  with h show ?thesis
    by (simp add: prepareMessages_def Let_def MAX_HISTORY_def slice_from_20)
qed

text \<open>
  Claim C10. For every incoming message list: when no element has role \<open>system\<close> the
  result is the default instruction followed by the (last 19) incoming messages; the
  result never has more than 20 elements; and when the history is longer than the
  maximum and starts with an instruction message, that message is the first element of
  the result, followed by the last 19 of the others.
\<close>

theorem prepareMessages_inject_trim:
  "(\<not> list_ex isSystem xs \<longrightarrow>
      prepareMessages dsi (Arr xs)
        = Some \<lparr>role = ''system'', content = dsi\<rparr> # drop (length xs - 19) xs)
   \<and> prepareMessages dsi NotArray = [Some \<lparr>role = ''system'', content = dsi\<rparr>]
   \<and> length (prepareMessages dsi inc) \<le> 20
   \<and> (isSystem m0 \<and> length (m0 # rest) > MAX_HISTORY \<longrightarrow>
        prepareMessages dsi (Arr (m0 # rest)) = m0 # drop (length rest - 19) rest)"
proof -
  have a: "prepareMessages dsi NotArray = [Some \<lparr>role = ''system'', content = dsi\<rparr>]"
    by (simp add: prepareMessages_def MAX_HISTORY_def)
  have b: "length (prepareMessages dsi inc) \<le> 20"
    using prepareMessages_length[of dsi inc] by (simp add: MAX_HISTORY_def)
  show ?thesis
    using a b prepareMessages_no_system[of xs dsi] prepareMessages_leading_system[of m0 rest dsi]
    by simp
qed

theorem prepareMessages_inject_trim_witness:
  "\<not> list_ex isSystem (replicate 20 (Some \<lparr>role = ''user'', content = ''hi''\<rparr>))
   \<and> prepareMessages ''dsi'' (Arr (replicate 20 (Some \<lparr>role = ''user'', content = ''hi''\<rparr>)))
       = Some \<lparr>role = ''system'', content = ''dsi''\<rparr> # replicate 19 (Some \<lparr>role = ''user'', content = ''hi''\<rparr>)
   \<and> isSystem (Some \<lparr>role = ''system'', content = ''be brief''\<rparr>)
   \<and> length (Some \<lparr>role = ''system'', content = ''be brief''\<rparr> # replicate 20 (Some \<lparr>role = ''user'', content = ''hi''\<rparr>)) > MAX_HISTORY
   \<and> prepareMessages ''dsi'' (Arr (Some \<lparr>role = ''system'', content = ''be brief''\<rparr> # replicate 20 (Some \<lparr>role = ''user'', content = ''hi''\<rparr>)))
       = Some \<lparr>role = ''system'', content = ''be brief''\<rparr> # replicate 19 (Some \<lparr>role = ''user'', content = ''hi''\<rparr>)"
  using prepareMessages_inject_trim[of "replicate 20 (Some \<lparr>role = ''user'', content = ''hi''\<rparr>)" "''dsi''" NotArray
      "Some \<lparr>role = ''system'', content = ''be brief''\<rparr>" "replicate 20 (Some \<lparr>role = ''user'', content = ''hi''\<rparr>)"]
  by (simp add: isSystem_def MAX_HISTORY_def list_ex_iff)

section \<open>Conversation ids\<close>

lemma sortJoin_pair: "sortJoin [a, b] = (if a \<le> b then a @ ''_'' @ b else b @ ''_'' @ a)"
  by (auto simp: sortJoin_def)

lemma openChat_direct:
  "openChat [other] None cl =
     Returned (openChat_subscribe
       (cl\<lparr>isGroup := False, chatUsers := [other, selfEntry cl],
          currentChatId := Some (sortJoin [uid other, authUid (currentUser cl)]),
          chatNameText := name other\<rparr>))"
  by (simp add: openChat_def Let_def selfEntry_def)

lemma currentChatId_subscribe [simp]:
  "currentChatId (openChat_subscribe cl) = currentChatId cl"
  by (simp add: openChat_subscribe_def loadMessages_def Let_def)

text \<open>
  Claim C2. Direct-conversation ids are symmetric: when user A opens the chat with B and
  user B opens the chat with A, both clients compute the same \<open>currentChatId\<close>, the two
  ids sorted and joined with \<open>_\<close>; for the ids u1 and u2 it is u1_u2 on both sides (the
  witness).
\<close>

theorem openChat_direct_symmetric:
  "uid ua = authUid (currentUser ca) \<and> uid ub = authUid (currentUser cb) \<longrightarrow>
     currentChatId (result (openChat [ub] None ca)) = currentChatId (result (openChat [ua] None cb))
     \<and> currentChatId (result (openChat [ub] None ca))
         = Some (if uid ua \<le> uid ub then uid ua @ ''_'' @ uid ub else uid ub @ ''_'' @ uid ua)"
  by (auto simp: openChat_direct sortJoin_pair)

theorem openChat_direct_symmetric_witness:
  "uid \<lparr>uid = ''u1'', name = ''A'', photoURL = [], online = True\<rparr>
      = authUid (currentUser (initialClient \<lparr>authUid = ''u1'', displayName = ''A'', authPhotoURL = None\<rparr>))
   \<and> uid \<lparr>uid = ''u2'', name = ''B'', photoURL = [], online = True\<rparr>
      = authUid (currentUser (initialClient \<lparr>authUid = ''u2'', displayName = ''B'', authPhotoURL = None\<rparr>))
   \<and> currentChatId (result (openChat [\<lparr>uid = ''u2'', name = ''B'', photoURL = [], online = True\<rparr>] None
        (initialClient \<lparr>authUid = ''u1'', displayName = ''A'', authPhotoURL = None\<rparr>))) = Some ''u1_u2''
   \<and> currentChatId (result (openChat [\<lparr>uid = ''u1'', name = ''A'', photoURL = [], online = True\<rparr>] None
        (initialClient \<lparr>authUid = ''u2'', displayName = ''B'', authPhotoURL = None\<rparr>))) = Some ''u1_u2''"
  using openChat_direct_symmetric[of "\<lparr>uid = ''u1'', name = ''A'', photoURL = [], online = True\<rparr>"
      "initialClient \<lparr>authUid = ''u1'', displayName = ''A'', authPhotoURL = None\<rparr>"
      "\<lparr>uid = ''u2'', name = ''B'', photoURL = [], online = True\<rparr>"
      "initialClient \<lparr>authUid = ''u2'', displayName = ''B'', authPhotoURL = None\<rparr>"]
  by (simp add: initialClient_def openChat_def Let_def selfEntry_def sortJoin_def
      openChat_subscribe_def loadMessages_def)

section \<open>The listener ends\<close>

lemma status_mergeObj: "status (mergeObj m (statusOnly st)) = Some st"
  by (simp add: mergeObj_def statusOnly_def emptyObj_def orElse_def)

lemma statusOnly_nonempty: "statusOnly st \<noteq> emptyObj"
  by (simp add: statusOnly_def emptyObj_def)

lemma senderId_statusOnly: "senderId (statusOnly st) = None" "status (statusOnly st) = Some st"
  by (simp_all add: statusOnly_def emptyObj_def)

lemma length_filter_insort_key:
  "length (filter P (insort_key f x xs)) = length (filter P (x # xs))"
  by (induction xs) auto

lemma keys_updateChild_present:
  "k \<in> set (map fst xs) \<Longrightarrow> map fst (updateChild k u xs) = map fst xs"
  by (auto simp: updateChild_def)

lemma updateChild_present:
  "k \<in> set (map fst xs) \<Longrightarrow> updateChild k (statusOnly Seen) xs = map (markAt k) xs"
proof -
  have "(\<lambda>(k', m). if k' = k then (k', mergeObj m (statusOnly Seen)) else (k', m)) = markAt k"
    by (auto simp: markAt_def fun_eq_iff)
  then show "k \<in> set (map fst xs) \<Longrightarrow> ?thesis" by (simp add: updateChild_def)
qed

lemma senderId_mergeObj: "senderId (mergeObj m (statusOnly st)) = senderId m"
  by (simp add: mergeObj_def statusOnly_def emptyObj_def orElse_def)

lemma unseen_markAt: "unseen me (markAt k e) \<Longrightarrow> unseen me e"
  by (auto simp: markAt_def unseen_def status_mergeObj split: if_splits)

lemma not_unseen_markAt: "fst e = k \<Longrightarrow> \<not> unseen me (markAt k e)"
  by (simp add: markAt_def unseen_def status_mergeObj)

lemma pending_markAt_le: "pending me (map (markAt k) ys) \<le> pending me ys"
proof (induction ys)
  case Nil
  then show ?case by (simp add: pending_def)
next
  case (Cons y ys)
  then show ?case using unseen_markAt[of me k y] by (auto simp: pending_def)
qed

lemma pending_markAt_less:
  "e \<in> set ys \<Longrightarrow> fst e = k \<Longrightarrow> unseen me e \<Longrightarrow> pending me (map (markAt k) ys) < pending me ys"
proof (induction ys)
  case Nil
  then show ?case by simp
next
  case (Cons y ys)
  show ?case
  proof (cases "y = e")
    case True
    with Cons.prems pending_markAt_le[of me k ys] not_unseen_markAt[of e k me]
    show ?thesis by (simp add: pending_def)
  next
    case False
    with Cons have "pending me (map (markAt k) ys) < pending me ys" by simp
    then show ?thesis using unseen_markAt[of me k y] by (auto simp: pending_def)
  qed
qed

lemma pending_update_le: "pending me (updateChild k (statusOnly Seen) xs) \<le> pending me xs"
proof (cases "k \<in> set (map fst xs)")
  case True
  then show ?thesis by (simp add: updateChild_present pending_markAt_le)
next
  case False
  then show ?thesis
    by (simp add: pending_def updateChild_def statusOnly_nonempty length_filter_insort_key
        unseen_def senderId_statusOnly)
qed

lemma pending_update_less:
  assumes "(k, m) \<in> set xs" "unseen me (k, m)"
  shows "pending me (updateChild k (statusOnly Seen) xs) < pending me xs"
proof -
  from assms(1) have "k \<in> set (map fst xs)" by force
  then show ?thesis
    using pending_markAt_less[OF assms(1) _ assms(2)] by (simp add: updateChild_present)
qed

lemma forEachMessage_quiet:
  "\<forall>e \<in> set rest. \<not> unseen me e \<Longrightarrow>
   forEachMessage n echo path me rest (xs, divs, ws) = Some (xs, divs @ map (mkDiv path me) rest, ws)"
proof (induction rest arbitrary: divs)
  case Nil
  then show ?case by simp
next
  case (Cons e rest)
  obtain k m where e: "e = (k, m)" by (cases e)
  from Cons.prems have "\<not> unseen me (k, m)" "\<forall>e \<in> set rest. \<not> unseen me e" by (auto simp: e)
  with Cons.IH[of "divs @ [mkDiv path me (k, m)]"] show ?case
    by (auto simp: e Let_def unseen_def mkDiv_def)
qed

text \<open>The step of the loop at a child that needs the update.\<close>

lemma forEachMessage_step:
  assumes "unseen me (k, m)"
  shows "forEachMessage n echo path me ((k, m) # rest) (xs, divs, ws) =
     (if echo \<or> updateChild k (statusOnly Seen) xs \<noteq> xs then
        (case n of 0 \<Rightarrow> None
         | Suc n' \<Rightarrow>
            (case forEachMessage n' echo path me (updateChild k (statusOnly Seen) xs)
                    (updateChild k (statusOnly Seen) xs, [], ws @ [Update (path @ [k]) (statusOnly Seen)]) of
               None \<Rightarrow> None
             | Some (ys, divs1, ws1) \<Rightarrow>
                 forEachMessage n echo path me rest (ys, divs1 @ [mkDiv path me (k, m)], ws1)))
      else forEachMessage n echo path me rest
             (updateChild k (statusOnly Seen) xs, divs @ [mkDiv path me (k, m)],
              ws @ [Update (path @ [k]) (statusOnly Seen)]))"
  using assms by (cases n) (auto simp: Let_def unseen_def mkDiv_def split: option.splits)

lemma forEachMessage_skip:
  assumes "\<not> unseen me (k, m)"
  shows "forEachMessage n echo path me ((k, m) # rest) (xs, divs, ws) =
     forEachMessage n echo path me rest (xs, divs @ [mkDiv path me (k, m)], ws)"
  using assms by (auto simp: Let_def unseen_def mkDiv_def)

declare forEachMessage.simps(2) [simp del]

lemma returnsAt_quiet:
  assumes "\<forall>e \<in> set rest. \<not> unseen me e"
  shows "returnsAt n echo path me rest xs"
  using forEachMessage_quiet[OF assms] by (simp add: returnsAt_def)

lemma pending_0_quiet: "pending me xs = 0 \<Longrightarrow> \<forall>e \<in> set xs. \<not> unseen me e"
  by (auto simp: pending_def filter_empty_conv)

lemma returnsAt_any:
  assumes C: "\<And>xs. pending me xs \<le> n \<Longrightarrow> returnsAt n echo path me xs xs"
  shows "pending me xs \<le> n \<Longrightarrow> returnsAt (Suc n) echo path me rest xs"
proof (induction rest arbitrary: xs)
  case Nil
  then show ?case by (simp add: returnsAt_def)
next
  case (Cons e rest)
  obtain k m where e: "e = (k, m)" by (cases e)
  show ?case
  proof (cases "unseen me (k, m)")
    case False
    from Cons.IH[OF Cons.prems] show ?thesis
      by (simp add: returnsAt_def e forEachMessage_skip[OF False])
  next
    case True
    let ?xs' = "updateChild k (statusOnly Seen) xs"
    have le: "pending me ?xs' \<le> pending me xs" by (rule pending_update_le)
    with Cons.prems have le': "pending me ?xs' \<le> n" by simp
    show ?thesis
      unfolding returnsAt_def
    proof (intro allI)
      fix divs ws
      show "\<exists>ys divs' ws'. forEachMessage (Suc n) echo path me (e # rest) (xs, divs, ws) = Some (ys, divs', ws')
              \<and> pending me ys \<le> pending me xs"
      proof (cases "echo \<or> ?xs' \<noteq> xs")
        case True
        from C[OF le'] obtain ys d1 w1 where
          r: "forEachMessage n echo path me ?xs' (?xs', [], ws @ [Update (path @ [k]) (statusOnly Seen)])
                = Some (ys, d1, w1)" and p: "pending me ys \<le> pending me ?xs'"
          unfolding returnsAt_def by blast
        from p le' have "pending me ys \<le> n" by simp
        from Cons.IH[OF this] obtain zs d2 w2 where
          "forEachMessage (Suc n) echo path me rest (ys, d1 @ [mkDiv path me (k, m)], w1) = Some (zs, d2, w2)"
          and "pending me zs \<le> pending me ys"
          unfolding returnsAt_def by blast
        with p le r True show ?thesis
          by (simp add: e forEachMessage_step[OF \<open>unseen me (k, m)\<close>])
      next
        case False
        from Cons.IH[OF le'] obtain zs d2 w2 where
          "forEachMessage (Suc n) echo path me rest
              (?xs', divs @ [mkDiv path me (k, m)], ws @ [Update (path @ [k]) (statusOnly Seen)]) = Some (zs, d2, w2)"
          and "pending me zs \<le> pending me ?xs'"
          unfolding returnsAt_def by blast
        with le False show ?thesis
          by (simp add: e forEachMessage_step[OF \<open>unseen me (k, m)\<close>])
      qed
    qed
  qed
qed

lemma returnsAt_own:
  assumes C: "\<And>xs. pending me xs \<le> n \<Longrightarrow> returnsAt n echo path me xs xs"
  shows "set rest \<subseteq> set xs \<Longrightarrow> pending me xs \<le> Suc n \<Longrightarrow> returnsAt (Suc n) echo path me rest xs"
proof (induction rest)
  case Nil
  then show ?case by (simp add: returnsAt_def)
next
  case (Cons e rest)
  obtain k m where e: "e = (k, m)" by (cases e)
  show ?case
  proof (cases "unseen me (k, m)")
    case False
    from Cons have "returnsAt (Suc n) echo path me rest xs" by simp
    then show ?thesis
      by (simp add: returnsAt_def e forEachMessage_skip[OF False])
  next
    case True
    let ?xs' = "updateChild k (statusOnly Seen) xs"
    from Cons.prems have "(k, m) \<in> set xs" by (simp add: e)
    from pending_update_less[OF this True] have less: "pending me ?xs' < pending me xs" .
    with Cons.prems have le': "pending me ?xs' \<le> n" by simp
    from less have ne: "?xs' \<noteq> xs" by auto
    show ?thesis
      unfolding returnsAt_def
    proof (intro allI)
      fix divs ws
      from C[OF le'] obtain ys d1 w1 where
        r: "forEachMessage n echo path me ?xs' (?xs', [], ws @ [Update (path @ [k]) (statusOnly Seen)])
              = Some (ys, d1, w1)" and p: "pending me ys \<le> pending me ?xs'"
        unfolding returnsAt_def by blast
      from p le' have "pending me ys \<le> n" by simp
      from returnsAt_any[of me n echo path ys rest, OF C this] obtain zs d2 w2 where
        "forEachMessage (Suc n) echo path me rest (ys, d1 @ [mkDiv path me (k, m)], w1) = Some (zs, d2, w2)"
        and "pending me zs \<le> pending me ys"
        unfolding returnsAt_def by blast
      with p less r ne show "\<exists>ys divs' ws'. forEachMessage (Suc n) echo path me (e # rest) (xs, divs, ws) = Some (ys, divs', ws')
              \<and> pending me ys \<le> pending me xs"
        by (simp add: e forEachMessage_step[OF True])
    qed
  qed
qed

lemma returnsAt_snapshot:
  "pending me xs \<le> n \<Longrightarrow> returnsAt n echo path me xs xs"
proof (induction n arbitrary: xs)
  case 0
  then show ?case by (simp add: returnsAt_quiet pending_0_quiet)
next
  case (Suc n)
  show ?case
    by (rule returnsAt_own[of me n echo path xs xs, OF Suc.IH _ Suc.prems]) simp_all
qed

lemma forEachMessage_returns:
  "\<exists>ys divs ws. forEachMessage (length xs) echo path me xs (xs, [], []) = Some (ys, divs, ws)"
proof -
  have "pending me xs \<le> length xs" by (simp add: pending_def)
  from returnsAt_snapshot[OF this] show ?thesis
    unfolding returnsAt_def by blast
qed

lemma onMessagesValue_returns: "\<exists>cl' ws. onMessagesValue path cl = Some (cl', ws)"
  using forEachMessage_returns[of "cache cl path" "notifyUnchanged cl" path "authUid (currentUser cl)"]
  by (auto simp: onMessagesValue_def)


section \<open>What the listener renders and writes\<close>

lemma forEachMessage_cases [consumes 1, case_names Nil Skip Quiet Reenter]:
  assumes run: "forEachMessage n echo path me rest st = Some r"
    and nil: "\<And>st. P [] st st"
    and skip: "\<And>k m rest xs divs ws r.
        \<not> unseen me (k, m) \<Longrightarrow>
        P rest (xs, divs @ [mkDiv path me (k, m)], ws) r \<Longrightarrow>
        P ((k, m) # rest) (xs, divs, ws) r"
    and quiet: "\<And>k m rest xs divs ws r.
        unseen me (k, m) \<Longrightarrow> updateChild k (statusOnly Seen) xs = xs \<Longrightarrow>
        P rest (xs, divs @ [mkDiv path me (k, m)], ws @ [Update (path @ [k]) (statusOnly Seen)]) r \<Longrightarrow>
        P ((k, m) # rest) (xs, divs, ws) r"
    and reenter: "\<And>k m rest xs divs ws ys divs1 ws1 r.
        unseen me (k, m) \<Longrightarrow>
        P (updateChild k (statusOnly Seen) xs)
          (updateChild k (statusOnly Seen) xs, [], ws @ [Update (path @ [k]) (statusOnly Seen)])
          (ys, divs1, ws1) \<Longrightarrow>
        P rest (ys, divs1 @ [mkDiv path me (k, m)], ws1) r \<Longrightarrow>
        P ((k, m) # rest) (xs, divs, ws) r"
  shows "P rest st r"
  using run
proof (induction n arbitrary: rest st r)
  case 0
  then show ?case
  proof (induction rest arbitrary: st)
    case Nil
    then show ?case using nil by simp
  next
    case (Cons e rest)
    obtain k m where e: "e = (k, m)" by (cases e)
    obtain xs divs ws where st: "st = (xs, divs, ws)" by (cases st)
    show ?case
    proof (cases "unseen me (k, m)")
      case False
      with Cons show ?thesis
        by (auto simp: e st forEachMessage_skip intro: skip)
    next
      case True
      with Cons.prems have q: "\<not> (echo \<or> updateChild k (statusOnly Seen) xs \<noteq> xs)"
        by (auto simp: e st forEachMessage_step split: if_splits)
      with True Cons show ?thesis
        by (auto simp: e st forEachMessage_step intro: quiet)
    qed
  qed
next
  case (Suc n)
  from Suc.prems show ?case
  proof (induction rest arbitrary: st)
    case Nil
    then show ?case using nil by simp
  next
    case (Cons e rest)
    obtain k m where e: "e = (k, m)" by (cases e)
    obtain xs divs ws where st: "st = (xs, divs, ws)" by (cases st)
    show ?case
    proof (cases "unseen me (k, m)")
      case False
      with Cons show ?thesis
        by (auto simp: e st forEachMessage_skip intro: skip)
    next
      case True
      show ?thesis
      proof (cases "echo \<or> updateChild k (statusOnly Seen) xs \<noteq> xs")
        case False
        with True Cons show ?thesis
          by (auto simp: e st forEachMessage_step intro: quiet)
      next
        case re: True
        let ?xs' = "updateChild k (statusOnly Seen) xs"
        let ?ws' = "ws @ [Update (path @ [k]) (statusOnly Seen)]"
        from Cons.prems True re obtain ys divs1 ws1 where
          a: "forEachMessage n echo path me ?xs' (?xs', [], ?ws') = Some (ys, divs1, ws1)"
          and b: "forEachMessage (Suc n) echo path me rest (ys, divs1 @ [mkDiv path me (k, m)], ws1) = Some r"
          by (auto simp: e st forEachMessage_step split: option.splits)
        from Suc.IH[OF a] have p1: "P ?xs' (?xs', [], ?ws') (ys, divs1, ws1)" .
        from Cons.IH[OF b] have p2: "P rest (ys, divs1 @ [mkDiv path me (k, m)], ws1) r" .
        from reenter[OF True p1 p2] show ?thesis by (simp add: e st)
      qed
    qed
  qed
qed

text \<open>Keys: the local copy keeps its keys, and the view holds the keys of the snapshot.\<close>

lemma keys_update_seen:
  "k \<in> set (map fst xs) \<Longrightarrow> map fst (updateChild k (statusOnly Seen) xs) = map fst xs"
  by (auto simp: updateChild_def)

lemma dataKey_mkDiv [simp]: "dataKey (mkDiv path me e) = fst e"
  by (simp add: mkDiv_def)

lemma forEachMessage_keys:
  assumes "forEachMessage n echo path me rest st = Some r"
    and "set (map fst rest) \<subseteq> set (map fst (fst st))"
  shows "map fst (fst r) = map fst (fst st)
       \<and> set (map dataKey (fst (snd r))) \<subseteq> set (map dataKey (fst (snd st))) \<union> set (map fst (fst st))
       \<and> (set (map dataKey (fst (snd st))) \<union> set (map fst rest) \<subseteq> set (map dataKey (fst (snd r)))
            \<or> set (map fst (fst st)) \<subseteq> set (map dataKey (fst (snd r))))"
  using assms
proof (induction rule: forEachMessage_cases)
  case (Nil st)
  then show ?case by simp
next
  case (Skip k m rest xs divs ws r)
  then show ?case by auto
next
  case (Quiet k m rest xs divs ws r)
  then show ?case by auto
next
  case (Reenter k m rest xs divs ws ys divs1 ws1 r)
  let ?xs' = "updateChild k (statusOnly Seen) xs"
  from Reenter.prems have kin: "k \<in> set (map fst xs)" and rin: "set (map fst rest) \<subseteq> set (map fst xs)" by auto
  have kx: "map fst ?xs' = map fst xs" by (rule keys_update_seen[OF kin])
  from Reenter.IH(1) have 1: "map fst ys = map fst xs"
    "set (map dataKey divs1) \<subseteq> set (map fst xs)" "set (map fst xs) \<subseteq> set (map dataKey divs1)"
    by (auto simp: kx)
  from rin 1(1) have "set (map fst rest) \<subseteq> set (map fst (fst (ys, divs1 @ [mkDiv path me (k, m)], ws1)))" by simp
  from Reenter.IH(2)[OF this] have 2: "map fst (fst r) = map fst ys"
    "set (map dataKey (fst (snd r))) \<subseteq> set (map dataKey (divs1 @ [mkDiv path me (k, m)])) \<union> set (map fst ys)"
    "set (map dataKey (divs1 @ [mkDiv path me (k, m)])) \<union> set (map fst rest) \<subseteq> set (map dataKey (fst (snd r)))
       \<or> set (map fst ys) \<subseteq> set (map dataKey (fst (snd r)))"
    by auto
  from 1(1) have ky: "set (map fst ys) = set (map fst xs)" by (rule arg_cong)
  have kd: "set (map dataKey (divs1 @ [mkDiv path me (k, m)])) = set (map dataKey divs1) \<union> {k}" by simp
  from 2(3) 1(3) ky kd have c: "set (map fst xs) \<subseteq> set (map dataKey (fst (snd r)))" by blast
  from 2(2) 1(2) ky kd kin have b: "set (map dataKey (fst (snd r))) \<subseteq> set (map fst xs)" by blast
  from 2(1) 1(1) have a: "map fst (fst r) = map fst xs" by simp
  from a b c show ?case by auto
qed

lemma onMessagesValue_keys:
  assumes "onMessagesValue path cl = Some (cl', ws)"
  shows "set (map dataKey (messagesEl cl')) = set (map fst (cache cl path))
       \<and> map fst (cache cl' path) = map fst (cache cl path)"
proof -
  from assms obtain xs divs where
    r: "forEachMessage (length (cache cl path)) (notifyUnchanged cl) path (authUid (currentUser cl))
          (cache cl path) (cache cl path, [], []) = Some (xs, divs, ws)"
    and c: "cl' = cl\<lparr>cache := (cache cl)(path := xs), messagesEl := divs\<rparr>"
    by (auto simp: onMessagesValue_def split: option.splits)
  from forEachMessage_keys[OF r] show ?thesis by (auto simp: c)
qed

lemma unseen_after_update:
  assumes "e \<in> set (updateChild k (statusOnly Seen) xs)" "unseen me e"
  shows "e \<in> set xs"
proof (cases "k \<in> set (map fst xs)")
  case True
  with assms(1) obtain e0 where e0: "e0 \<in> set xs" "e = markAt k e0"
    by (auto simp: updateChild_present)
  with assms(2) not_unseen_markAt[of e0 k me] have "fst e0 \<noteq> k" by auto
  with e0 show ?thesis by (simp add: markAt_def)
next
  case False
  with assms show ?thesis
    by (auto simp: updateChild_def statusOnly_nonempty set_insort_key unseen_def senderId_statusOnly)
qed

lemma forEachMessage_writes:
  assumes "forEachMessage n echo path me rest st = Some r"
    and "\<forall>e \<in> set rest. unseen me e \<longrightarrow> e \<in> S"
    and "\<forall>e \<in> set (fst st). unseen me e \<longrightarrow> e \<in> S"
  shows "\<exists>extra. snd (snd r) = snd (snd st) @ extra
           \<and> (\<forall>w \<in> set extra. \<exists>e \<in> S. unseen me e \<and> w = Update (path @ [fst e]) (statusOnly Seen))
           \<and> (\<forall>e \<in> set rest. unseen me e \<longrightarrow> Update (path @ [fst e]) (statusOnly Seen) \<in> set extra)
           \<and> (\<forall>e \<in> set (fst r). unseen me e \<longrightarrow> e \<in> S)"
  using assms
proof (induction rule: forEachMessage_cases)
  case (Nil st)
  then show ?case by simp
next
  case (Skip k m rest xs divs ws r)
  then show ?case by auto
next
  case (Quiet k m rest xs divs ws r)
  let ?w = "Update (path @ [k]) (statusOnly Seen)"
  from Quiet.prems Quiet.hyps have s: "(k, m) \<in> S" by auto
  from Quiet.IH Quiet.prems obtain extra where
    x: "snd (snd r) = (ws @ [?w]) @ extra"
       "\<forall>w \<in> set extra. \<exists>e \<in> S. unseen me e \<and> w = Update (path @ [fst e]) (statusOnly Seen)"
       "\<forall>e \<in> set rest. unseen me e \<longrightarrow> Update (path @ [fst e]) (statusOnly Seen) \<in> set extra"
       "\<forall>e \<in> set (fst r). unseen me e \<longrightarrow> e \<in> S"
    by auto
  show ?case
  proof (intro exI[of _ "?w # extra"] conjI)
    show "snd (snd r) = snd (snd (xs, divs, ws)) @ ?w # extra" using x(1) by simp
    show "\<forall>w \<in> set (?w # extra). \<exists>e \<in> S. unseen me e \<and> w = Update (path @ [fst e]) (statusOnly Seen)"
      using x(2) s Quiet.hyps(1) by force
    show "\<forall>e \<in> set ((k, m) # rest). unseen me e \<longrightarrow> Update (path @ [fst e]) (statusOnly Seen) \<in> set (?w # extra)"
      using x(3) by auto
    show "\<forall>e \<in> set (fst r). unseen me e \<longrightarrow> e \<in> S" using x(4) .
  qed
next
  case (Reenter k m rest xs divs ws ys divs1 ws1 r)
  let ?w = "Update (path @ [k]) (statusOnly Seen)"
  let ?xs' = "updateChild k (statusOnly Seen) xs"
  from Reenter.prems Reenter.hyps have s: "(k, m) \<in> S" by auto
  have i': "\<forall>e \<in> set ?xs'. unseen me e \<longrightarrow> e \<in> S"
    using unseen_after_update Reenter.prems(2) by fastforce
  from Reenter.IH(1) i' obtain ex1 where
    a: "ws1 = (ws @ [?w]) @ ex1"
       "\<forall>w \<in> set ex1. \<exists>e \<in> S. unseen me e \<and> w = Update (path @ [fst e]) (statusOnly Seen)"
       "\<forall>e \<in> set ys. unseen me e \<longrightarrow> e \<in> S"
    by auto
  from Reenter.IH(2) Reenter.prems(1) a(3) obtain ex2 where
    b: "snd (snd r) = ws1 @ ex2"
       "\<forall>w \<in> set ex2. \<exists>e \<in> S. unseen me e \<and> w = Update (path @ [fst e]) (statusOnly Seen)"
       "\<forall>e \<in> set rest. unseen me e \<longrightarrow> Update (path @ [fst e]) (statusOnly Seen) \<in> set ex2"
       "\<forall>e \<in> set (fst r). unseen me e \<longrightarrow> e \<in> S"
    by auto
  show ?case
  proof (intro exI[of _ "?w # ex1 @ ex2"] conjI)
    show "snd (snd r) = snd (snd (xs, divs, ws)) @ ?w # ex1 @ ex2" using a(1) b(1) by simp
    show "\<forall>w \<in> set (?w # ex1 @ ex2). \<exists>e \<in> S. unseen me e \<and> w = Update (path @ [fst e]) (statusOnly Seen)"
      using a(2) b(2) s Reenter.hyps(1) by force
    show "\<forall>e \<in> set ((k, m) # rest). unseen me e \<longrightarrow> Update (path @ [fst e]) (statusOnly Seen) \<in> set (?w # ex1 @ ex2)"
      using b(3) by auto
    show "\<forall>e \<in> set (fst r). unseen me e \<longrightarrow> e \<in> S" using b(4) .
  qed
qed

lemma onMessagesValue_writes:
  assumes "onMessagesValue path cl = Some (cl', ws)"
  shows "(\<forall>w \<in> set ws. \<exists>e \<in> set (cache cl path). unseen (authUid (currentUser cl)) e
                          \<and> w = Update (path @ [fst e]) (statusOnly Seen))
       \<and> (\<forall>e \<in> set (cache cl path). unseen (authUid (currentUser cl)) e
             \<longrightarrow> Update (path @ [fst e]) (statusOnly Seen) \<in> set ws)"
proof -
  from assms obtain xs divs where
    r: "forEachMessage (length (cache cl path)) (notifyUnchanged cl) path (authUid (currentUser cl))
          (cache cl path) (cache cl path, [], []) = Some (xs, divs, ws)"
    by (auto simp: onMessagesValue_def split: option.splits)
  from forEachMessage_writes[OF r, of "set (cache cl path)"] show ?thesis by auto
qed

lemmas scenario_defs = chatAB_def snapAB_def clientA_def clientB_def userA_def userB_def
  userDoc_def textMessage_def initialClient_def openChat_def openChat_subscribe_def loadMessages_def
  messagesPath_def typingPath_def selfEntry_def sortJoin_def str_null_def Let_def

lemmas listener_defs = deliverMessages_def onMessagesValue_def localWrite_def affected_def
  forEachMessage.simps(2) updateChild_def setChild_def removeChild_def apply_op_def apply_ops_def
  statusOnly_def emptyObj_def mergeObj_def orElse_def

section \<open>Group ids and the Seen update\<close>

lemma onMessagesValue_empty:
  "cache cl path = [] \<Longrightarrow> onMessagesValue path cl = Some (cl\<lparr>cache := (cache cl)(path := []), messagesEl := []\<rparr>, [])"
  by (simp add: onMessagesValue_def)

lemma localWrite_SetGroup:
  "\<exists>cl'. localWrite (SetGroup r g) cl = Some (cl', [SetGroup r g])"
  by (auto simp: localWrite_def Let_def affected_def apply_op_def onMessagesValue_empty)

lemma createGroup_ok:
  "trim n \<noteq> [] \<Longrightarrow> sel \<noteq> [] \<Longrightarrow>
   \<exists>cl' g. createGroupBtn_onclick n sel cl
            = Some (cl', [SetGroup [''groups'', sortJoin (map uid sel @ [authUid (currentUser cl)])] g])
     \<and> groupId g = sortJoin (map uid sel @ [authUid (currentUser cl)])"
proof -
  assume h: "trim n \<noteq> []" "sel \<noteq> []"
  let ?gid = "sortJoin (map uid sel @ [authUid (currentUser cl)])"
  let ?g = "\<lparr>groupId = ?gid, groupName = trim n,
             members = fold (\<lambda>u o'. o'(uid u \<mapsto> name u)) (sel @ [selfEntry cl]) Map.empty\<rparr>"
  from localWrite_SetGroup[of "[''groups'', ?gid]" ?g cl] obtain cl' where
    "localWrite (SetGroup [''groups'', ?gid] ?g) cl = Some (cl', [SetGroup [''groups'', ?gid] ?g])" by blast
  with h show ?thesis
    by (cases sel) (auto simp: createGroupBtn_onclick_def Let_def selfEntry_def)
qed

lemma sortJoin_mset: "mset us = mset vs \<Longrightarrow> sortJoin us = sortJoin vs"
proof -
  assume "mset us = mset vs"
  then have "sort us = sort vs"
    by (metis properties_for_sort sorted_sort mset_sort)
  then show ?thesis by (simp add: sortJoin_def)
qed

text \<open>
  Claim C3. The id of a created group depends only on the member ids (the checked
  members and the creator) as a multiset: two creations whose member lists hold the same
  ids in any order, whoever the creator is, write the same group id.
\<close>

theorem group_id_order_independent:
  "trim n1 \<noteq> [] \<and> trim n2 \<noteq> [] \<and> sel1 \<noteq> [] \<and> sel2 \<noteq> []
   \<and> mset (map uid sel1 @ [authUid (currentUser c1)]) = mset (map uid sel2 @ [authUid (currentUser c2)])
   \<longrightarrow> createdGroupId (createGroupBtn_onclick n1 sel1 c1)
         = createdGroupId (createGroupBtn_onclick n2 sel2 c2)
       \<and> createdGroupId (createGroupBtn_onclick n1 sel1 c1)
         = Some (sortJoin (map uid sel1 @ [authUid (currentUser c1)]))"
proof (intro impI, elim conjE)
  assume h: "trim n1 \<noteq> []" "trim n2 \<noteq> []" "sel1 \<noteq> []" "sel2 \<noteq> []"
    and m: "mset (map uid sel1 @ [authUid (currentUser c1)]) = mset (map uid sel2 @ [authUid (currentUser c2)])"
  from createGroup_ok[OF h(1) h(3), of c1]
  have a: "createdGroupId (createGroupBtn_onclick n1 sel1 c1) = Some (sortJoin (map uid sel1 @ [authUid (currentUser c1)]))"
    by (auto simp: createdGroupId_def)
  from createGroup_ok[OF h(2) h(4), of c2]
  have b: "createdGroupId (createGroupBtn_onclick n2 sel2 c2) = Some (sortJoin (map uid sel2 @ [authUid (currentUser c2)]))"
    by (auto simp: createdGroupId_def)
  from sortJoin_mset[OF m] a b
  show "createdGroupId (createGroupBtn_onclick n1 sel1 c1)
         = createdGroupId (createGroupBtn_onclick n2 sel2 c2)
       \<and> createdGroupId (createGroupBtn_onclick n1 sel1 c1)
         = Some (sortJoin (map uid sel1 @ [authUid (currentUser c1)]))"
    by simp
qed

theorem group_id_order_independent_witness:
  "trim ''team'' \<noteq> [] \<and> trim '' team '' \<noteq> []
   \<and> [\<lparr>uid = ''u3'', name = ''C'', photoURL = [], online = False\<rparr>,
       \<lparr>uid = ''u2'', name = ''B'', photoURL = [], online = False\<rparr>] \<noteq> []
   \<and> [\<lparr>uid = ''u1'', name = ''A'', photoURL = [], online = False\<rparr>,
       \<lparr>uid = ''u3'', name = ''C'', photoURL = [], online = False\<rparr>] \<noteq> []
   \<and> mset (map uid [\<lparr>uid = ''u3'', name = ''C'', photoURL = [], online = False\<rparr>,
                     \<lparr>uid = ''u2'', name = ''B'', photoURL = [], online = False\<rparr>]
             @ [authUid (currentUser (initialClient \<lparr>authUid = ''u1'', displayName = ''A'', authPhotoURL = None\<rparr>))])
     = mset (map uid [\<lparr>uid = ''u1'', name = ''A'', photoURL = [], online = False\<rparr>,
                      \<lparr>uid = ''u3'', name = ''C'', photoURL = [], online = False\<rparr>]
             @ [authUid (currentUser (initialClient \<lparr>authUid = ''u2'', displayName = ''B'', authPhotoURL = None\<rparr>))])
   \<and> createdGroupId (createGroupBtn_onclick ''team''
         [\<lparr>uid = ''u3'', name = ''C'', photoURL = [], online = False\<rparr>,
          \<lparr>uid = ''u2'', name = ''B'', photoURL = [], online = False\<rparr>]
         (initialClient \<lparr>authUid = ''u1'', displayName = ''A'', authPhotoURL = None\<rparr>))
      = Some ''u1_u2_u3''
   \<and> createdGroupId (createGroupBtn_onclick '' team ''
         [\<lparr>uid = ''u1'', name = ''A'', photoURL = [], online = False\<rparr>,
          \<lparr>uid = ''u3'', name = ''C'', photoURL = [], online = False\<rparr>]
         (initialClient \<lparr>authUid = ''u2'', displayName = ''B'', authPhotoURL = None\<rparr>))
      = Some ''u1_u2_u3''"
  using group_id_order_independent[of "''team''" "'' team ''"
      "[\<lparr>uid = ''u3'', name = ''C'', photoURL = [], online = False\<rparr>,
        \<lparr>uid = ''u2'', name = ''B'', photoURL = [], online = False\<rparr>]"
      "[\<lparr>uid = ''u1'', name = ''A'', photoURL = [], online = False\<rparr>,
        \<lparr>uid = ''u3'', name = ''C'', photoURL = [], online = False\<rparr>]"
      "initialClient \<lparr>authUid = ''u1'', displayName = ''A'', authPhotoURL = None\<rparr>"
      "initialClient \<lparr>authUid = ''u2'', displayName = ''B'', authPhotoURL = None\<rparr>"]
  by (simp add: initialClient_def trim_def is_ws_def sortJoin_def createdGroupId_def
      createGroupBtn_onclick_def Let_def selfEntry_def localWrite_def affected_def)

lemma mergeObj_statusOnly: "mergeObj m (statusOnly s) = m\<lparr>status := Some s\<rparr>"
  by (simp add: mergeObj_def statusOnly_def emptyObj_def orElse_def)

text \<open>
  Claim C4. The listener, run on a snapshot, ends, and it issues an update for a
  message only when the message's \<open>senderId\<close> differs from the local user id and its
  status is not already Seen, and it issues one for every such message; the update is
  \<open>{ status: 'Seen' }\<close>, which changes the status field only; for a message of the local
  user no update is issued at all.
\<close>

theorem seen_update_gated:
  "\<exists>cl' ws. onMessagesValue path (cl\<lparr>cache := (cache cl)(path := snap)\<rparr>) = Some (cl', ws)
   \<and> (\<forall>w \<in> set ws.
        \<exists>k m. (k, m) \<in> set snap \<and> senderId m \<noteq> Some (authUid (currentUser cl))
            \<and> status m \<noteq> Some Seen \<and> w = Update (path @ [k]) (statusOnly Seen))
   \<and> (\<forall>(k, m) \<in> set snap.
        senderId m \<noteq> Some (authUid (currentUser cl)) \<and> status m \<noteq> Some Seen
        \<longrightarrow> Update (path @ [k]) (statusOnly Seen) \<in> set ws)
   \<and> (\<forall>(k, m) \<in> set snap.
        distinct (map fst snap) \<and> senderId m = Some (authUid (currentUser cl))
        \<longrightarrow> (\<forall>u. Update (path @ [k]) u \<notin> set ws))
   \<and> (\<forall>m. mergeObj m (statusOnly Seen) = m\<lparr>status := Some Seen\<rparr>)"
proof -
  let ?me = "authUid (currentUser cl)"
  let ?cl = "cl\<lparr>cache := (cache cl)(path := snap)\<rparr>"
  obtain cl' ws where r: "onMessagesValue path ?cl = Some (cl', ws)"
    using onMessagesValue_returns by blast
  from onMessagesValue_writes[OF r]
  have a: "\<forall>w \<in> set ws. \<exists>e \<in> set snap. unseen ?me e \<and> w = Update (path @ [fst e]) (statusOnly Seen)"
    and b: "\<forall>e \<in> set snap. unseen ?me e \<longrightarrow> Update (path @ [fst e]) (statusOnly Seen) \<in> set ws"
    by simp_all
  have a': "\<forall>w \<in> set ws. \<exists>k m. (k, m) \<in> set snap \<and> senderId m \<noteq> Some ?me
            \<and> status m \<noteq> Some Seen \<and> w = Update (path @ [k]) (statusOnly Seen)"
  proof
    fix w assume "w \<in> set ws"
    with a obtain e where "e \<in> set snap" "unseen ?me e" "w = Update (path @ [fst e]) (statusOnly Seen)" by blast
    then show "\<exists>k m. (k, m) \<in> set snap \<and> senderId m \<noteq> Some ?me
            \<and> status m \<noteq> Some Seen \<and> w = Update (path @ [k]) (statusOnly Seen)"
      by (intro exI[of _ "fst e"] exI[of _ "snd e"]) (simp add: unseen_def)
  qed
  have b': "\<forall>(k, m) \<in> set snap. senderId m \<noteq> Some ?me \<and> status m \<noteq> Some Seen
        \<longrightarrow> Update (path @ [k]) (statusOnly Seen) \<in> set ws"
    using b by (auto simp: unseen_def)
  have c': "\<forall>(k, m) \<in> set snap. distinct (map fst snap) \<and> senderId m = Some ?me
        \<longrightarrow> (\<forall>u. Update (path @ [k]) u \<notin> set ws)"
  proof (clarify)
    fix k m u
    assume i: "(k, m) \<in> set snap" and d: "distinct (map fst snap)" and o: "senderId m = Some ?me"
      and w: "Update (path @ [k]) u \<in> set ws"
    from a' w obtain k' m' where h: "(k', m') \<in> set snap" "senderId m' \<noteq> Some ?me" "k' = k" by auto
    from d i h(1) h(3) have "m' = m" by (meson eq_key_imp_eq_value)
    with h(2) o show False by simp
  qed
  from r a' b' c' mergeObj_statusOnly show ?thesis by blast
qed

theorem seen_update_gated_witness:
  "map_option snd (onMessagesValue chatAB (clientB\<lparr>cache := (cache clientB)(chatAB := snapAB)\<rparr>))
     = Some [Update (chatAB @ [''m1'']) (statusOnly Seen)]
   \<and> (''m1'', textMessage userA ''hi'' 100 Sent) \<in> set snapAB
   \<and> senderId (textMessage userA ''hi'' 100 Sent) \<noteq> Some (authUid (currentUser clientB))
   \<and> status (textMessage userA ''hi'' 100 Sent) \<noteq> Some Seen
   \<and> (''m2'', textMessage userB ''yo'' 101 Delivered) \<in> set snapAB
   \<and> distinct (map fst snapAB)
   \<and> senderId (textMessage userB ''yo'' 101 Delivered) = Some (authUid (currentUser clientB))
   \<and> mergeObj (textMessage userA ''hi'' 100 Sent) (statusOnly Seen) = textMessage userA ''hi'' 100 Seen"
  using seen_update_gated[of chatAB clientB snapAB]
  by (simp add: scenario_defs listener_defs)

section \<open>Deleting messages and switching conversations\<close>

lemma keys_removeChild: "fst ` set (removeChild k xs) = fst ` set xs - {k}"
  by (force simp: removeChild_def)

lemma apply_Remove_child: "apply_op (Remove (p @ [k])) s p = removeChild k (s p)"
  by (simp add: apply_op_def)

lemma deliverMessages_keys:
  assumes "path \<in> set (messageListeners c)"
  shows "\<exists>c' ws. deliverMessages path snap c = Some (c', ws)
           \<and> set (map dataKey (messagesEl c')) = set (map fst snap)"
proof -
  let ?c = "c\<lparr>cache := (cache c)(path := snap)\<rparr>"
  obtain c' ws where r: "onMessagesValue path ?c = Some (c', ws)"
    using onMessagesValue_returns by blast
  from onMessagesValue_keys[OF r] assms r show ?thesis
    by (simp add: deliverMessages_def)
qed

lemma removeChild_changes: "k \<in> set (map fst xs) \<Longrightarrow> removeChild k xs \<noteq> xs"
proof
  assume "k \<in> set (map fst xs)" "removeChild k xs = xs"
  then have "k \<in> fst ` set (removeChild k xs)" by simp
  then show False by (simp add: keys_removeChild)
qed

lemma localWrite_Remove:
  "\<exists>cl' ws. localWrite (Remove (p @ [k])) cl = Some (cl', Remove (p @ [k]) # ws)
     \<and> (p \<notin> set (messageListeners cl) \<longrightarrow> messagesEl cl' = messagesEl cl)
     \<and> (p \<in> set (messageListeners cl) \<and> k \<in> set (map fst (cache cl p)) \<longrightarrow>
          set (map dataKey (messagesEl cl')) = set (map fst (cache cl p)) - {k})
     \<and> messageListeners cl' = messageListeners cl"
proof (cases "p \<in> set (messageListeners cl)
              \<and> (notifyUnchanged cl \<or> removeChild k (cache cl p) \<noteq> cache cl p)")
  case False
  then show ?thesis
    using removeChild_changes[of k "cache cl p"]
    by (auto simp: localWrite_def Let_def affected_def apply_op_def)
next
  case True
  let ?cl1 = "cl\<lparr>cache := apply_op (Remove (p @ [k])) (cache cl)\<rparr>"
  obtain cl2 ws where r: "onMessagesValue p ?cl1 = Some (cl2, ws)"
    using onMessagesValue_returns by blast
  from onMessagesValue_keys[OF r]
  have k: "set (map dataKey (messagesEl cl2)) = set (map fst (cache cl p)) - {k}"
    by (simp add: apply_Remove_child keys_removeChild)
  from r have l: "messageListeners cl2 = messageListeners cl"
    by (auto simp: onMessagesValue_def split: option.splits)
  from True r k l show ?thesis
    by (auto simp: localWrite_def Let_def affected_def apply_op_def)
qed

text \<open>
  Claim C6. Delete-for-everyone issues the store \<open>remove\<close> of the message first and
  whoever sent it (nothing about the caller or the sender is checked); the handler
  itself does not touch the view: without a listener on the list the view stays as it
  is, and with one the message leaves the deleter's view because the listener renders
  the list again. Once the store has applied the removal, the snapshot delivered to
  any subscribed client is rendered with exactly the keys of the other messages.
\<close>

theorem delete_for_everyone:
  "(\<exists>cl' ws. delForAll_onclick (showDeleteMenu el cl)
               = Some (cl', Remove (dataPath el @ [dataKey el]) # ws)
      \<and> (dataPath el \<notin> set (messageListeners cl) \<longrightarrow> messagesEl cl' = messagesEl cl)
      \<and> (dataPath el \<in> set (messageListeners cl) \<and> dataKey el \<in> set (map fst (cache cl (dataPath el)))
           \<longrightarrow> set (map dataKey (messagesEl cl')) = set (map fst (cache cl (dataPath el))) - {dataKey el}
             \<and> dataKey el \<notin> set (map dataKey (messagesEl cl'))))
   \<and> (\<forall>c. dataPath el \<in> set (messageListeners c) \<longrightarrow>
         (\<exists>c' ws. deliverMessages (dataPath el)
                     (apply_op (Remove (dataPath el @ [dataKey el])) s (dataPath el)) c = Some (c', ws)
            \<and> set (map dataKey (messagesEl c')) = set (map fst (s (dataPath el))) - {dataKey el}
            \<and> dataKey el \<notin> set (map dataKey (messagesEl c'))))"
proof (intro conjI allI impI)
  let ?m = "showDeleteMenu el cl"
  from localWrite_Remove[of "dataPath el" "dataKey el" ?m] obtain cl1 ws where
    r: "localWrite (Remove (dataPath el @ [dataKey el])) ?m = Some (cl1, Remove (dataPath el @ [dataKey el]) # ws)"
    and a: "dataPath el \<notin> set (messageListeners ?m) \<longrightarrow> messagesEl cl1 = messagesEl ?m"
    and b: "dataPath el \<in> set (messageListeners ?m) \<and> dataKey el \<in> set (map fst (cache ?m (dataPath el))) \<longrightarrow>
          set (map dataKey (messagesEl cl1)) = set (map fst (cache ?m (dataPath el))) - {dataKey el}"
    by blast
  have m: "messageListeners ?m = messageListeners cl" "messagesEl ?m = messagesEl cl" "cache ?m = cache cl"
    "deleteMenuPath ?m = Some (dataPath el)" "deleteMenuKey ?m = Some (dataKey el)"
    by (simp_all add: showDeleteMenu_def)
  have d: "delForAll_onclick ?m = Some (cl1\<lparr>deleteMenuShown := False\<rparr>, Remove (dataPath el @ [dataKey el]) # ws)"
    using r by (simp add: delForAll_onclick_def m str_undefined_def)
  show "\<exists>cl' ws. delForAll_onclick ?m = Some (cl', Remove (dataPath el @ [dataKey el]) # ws)
      \<and> (dataPath el \<notin> set (messageListeners cl) \<longrightarrow> messagesEl cl' = messagesEl cl)
      \<and> (dataPath el \<in> set (messageListeners cl) \<and> dataKey el \<in> set (map fst (cache cl (dataPath el)))
           \<longrightarrow> set (map dataKey (messagesEl cl')) = set (map fst (cache cl (dataPath el))) - {dataKey el}
             \<and> dataKey el \<notin> set (map dataKey (messagesEl cl')))"
    using d a b by (intro exI[of _ "cl1\<lparr>deleteMenuShown := False\<rparr>"] exI[of _ ws]) (auto simp: m)
next
  fix c :: client assume "dataPath el \<in> set (messageListeners c)"
  from deliverMessages_keys[OF this, of "apply_op (Remove (dataPath el @ [dataKey el])) s (dataPath el)"]
  show "\<exists>c' ws. deliverMessages (dataPath el)
                     (apply_op (Remove (dataPath el @ [dataKey el])) s (dataPath el)) c = Some (c', ws)
            \<and> set (map dataKey (messagesEl c')) = set (map fst (s (dataPath el))) - {dataKey el}
            \<and> dataKey el \<notin> set (map dataKey (messagesEl c'))"
    by (auto simp: apply_Remove_child keys_removeChild)
qed

theorem delete_for_everyone_witness:
  "chatAB \<in> set (messageListeners clientA)
   \<and> chatAB \<in> set (messageListeners clientB_shown)
   \<and> dataPath (hd (messagesEl clientB_shown)) = chatAB
   \<and> dataKey (hd (messagesEl clientB_shown)) = ''m1''
   \<and> outgoing (hd (messagesEl clientB_shown)) = False
   \<and> ''m1'' \<in> set (map fst (cache clientB_shown chatAB))
   \<and> map_option snd (delForAll_onclick (showDeleteMenu (hd (messagesEl clientB_shown)) clientB_shown))
       = Some [Remove (chatAB @ [''m1''])]
   \<and> map_option (map dataKey \<circ> messagesEl \<circ> fst)
        (delForAll_onclick (showDeleteMenu (hd (messagesEl clientB_shown)) clientB_shown))
       = Some [''m2'']
   \<and> map_option (map dataKey \<circ> messagesEl \<circ> fst)
        (deliverMessages chatAB (apply_op (Remove (chatAB @ [''m1''])) storeAB chatAB) clientA)
       = Some [''m2'', ''m2'']"
  using delete_for_everyone[of "hd (messagesEl clientB_shown)" clientB_shown storeAB]
  by (simp add: clientB_shown_def storeAB_def scenario_defs listener_defs delForAll_onclick_def
      showDeleteMenu_def str_undefined_def)

text \<open>
  Claim C7 on the code: when u2's client is notified of a message of u1 that is not yet
  Seen, the update inside the loop runs the listener again and the view ends with every
  message twice. Delete-for-me on the first \<open>div\<close> of m1 issues no write and removes that
  \<open>div\<close> only: m1 is still rendered.
\<close>

theorem delete_for_me_keeps_duplicate:
  "map dataKey (messagesEl clientB_shown) = [''m1'', ''m2'', ''m1'', ''m2'']
   \<and> map_option (map dataKey \<circ> messagesEl \<circ> fst)
        (deliverMessages chatAB snapAB (clientB\<lparr>notifyUnchanged := True\<rparr>))
       = Some [''m1'', ''m2'', ''m1'', ''m2'']
   \<and> deleteMenuKey (showDeleteMenu (hd (messagesEl clientB_shown)) clientB_shown) = Some ''m1''
   \<and> delForMe_onclick (showDeleteMenu (hd (messagesEl clientB_shown)) clientB_shown)
       = Returned ((showDeleteMenu (hd (messagesEl clientB_shown)) clientB_shown)
                     \<lparr>messagesEl := tl (messagesEl clientB_shown), deleteMenuShown := False\<rparr>, [])
   \<and> map dataKey (tl (messagesEl clientB_shown)) = [''m2'', ''m1'', ''m2'']
   \<and> ''m1'' \<in> set (map dataKey (messagesEl (fst (result
        (delForMe_onclick (showDeleteMenu (hd (messagesEl clientB_shown)) clientB_shown))))))"
  by (simp add: clientB_shown_def scenario_defs listener_defs delForMe_onclick_def
      showDeleteMenu_def str_undefined_def)

lemma openChat_subscribe_keeps:
  "set (messageListeners cl) \<subseteq> set (messageListeners (openChat_subscribe cl))
   \<and> set (typingListeners cl) \<subseteq> set (typingListeners (openChat_subscribe cl))"
  by (auto simp: openChat_subscribe_def loadMessages_def Let_def)

lemma openChat_keeps_listeners:
  "set (messageListeners cl) \<subseteq> set (messageListeners (result (openChat users gid cl)))
   \<and> set (typingListeners cl) \<subseteq> set (typingListeners (result (openChat users gid cl)))"
proof -
  have "\<And>c. messageListeners c = messageListeners cl \<Longrightarrow> typingListeners c = typingListeners cl \<Longrightarrow>
     set (messageListeners cl) \<subseteq> set (messageListeners (openChat_subscribe c))
   \<and> set (typingListeners cl) \<subseteq> set (typingListeners (openChat_subscribe c))"
    using openChat_subscribe_keeps by metis
  then show ?thesis
    by (simp add: openChat_def Let_def split: list.splits option.splits)
qed

text \<open>
  Claim C5 on the code: after u1 switches from the chat with u2 to the chat with u3, the
  listeners on the paths of the chat with u2 are still installed; a later snapshot of
  that chat is rendered into the view (and its incoming messages are marked Seen) while
  the chat with u3 is the active one, and its typing events still drive the indicator.
\<close>

theorem stale_subscription_after_switch:
  "currentChatId clientA = Some ''u1_u2''
   \<and> messageListeners clientA = [chatAB]
   \<and> currentChatId clientA_switched = Some ''u1_u3''
   \<and> messageListeners clientA_switched = [chatAB, [''chats'', ''u1_u3'']]
   \<and> typingListeners clientA_switched = [typingPath clientA, [''typing'', ''u1_u3'']]
   \<and> map_option (map dataKey \<circ> messagesEl \<circ> fst) (deliverMessages chatAB snapAB clientA_switched)
       = Some [''m1'', ''m2'', ''m2'']
   \<and> map_option (map dataKey \<circ> messagesEl \<circ> fst)
        (deliverMessages chatAB snapAB (clientA_switched\<lparr>notifyUnchanged := True\<rparr>))
       = Some [''m1'', ''m2'', ''m2'']
   \<and> map_option snd (deliverMessages chatAB snapAB clientA_switched)
       = Some [Update (chatAB @ [''m2'']) (statusOnly Seen)]
   \<and> typingVisible (deliverTyping [''typing'', ''u1_u2''] [(''u2'', True)] clientA_switched)"
  by (simp add: clientA_switched_def userC_def scenario_defs listener_defs deliverTyping_def
      onTypingValue_def)

section \<open>Status writes and their interleavings\<close>

lemma map_of_insort_key:
  "k \<notin> set (map fst xs) \<Longrightarrow> map_of (insort_key fst (k, v) xs) j = (if j = k then Some v else map_of xs j)"
  by (induction xs) auto

lemma map_of_absent: "k \<notin> set (map fst xs) \<Longrightarrow> map_of xs k = None"
  by (simp add: map_of_eq_None_iff)

lemma map_of_markAll:
  "map_of (map (\<lambda>(k', m). if k' = k then (k', f m) else (k', m)) xs) j
     = (if j = k then map_option f (map_of xs k) else map_of xs j)"
  by (induction xs) auto

lemma map_of_updateChild:
  "u \<noteq> emptyObj \<Longrightarrow>
   map_of (updateChild k u xs) j
     = (if j = k then Some (case map_of xs k of None \<Rightarrow> u | Some m \<Rightarrow> mergeObj m u)
        else map_of xs j)"
proof (cases "k \<in> set (map fst xs)")
  case True
  then obtain m where "map_of xs k = Some m"
    by (metis map_of_eq_None_iff not_None_eq set_map)
  with True show ?thesis
    by (simp add: updateChild_def map_of_markAll[of k "\<lambda>m. mergeObj m u"])
next
  case False
  assume "u \<noteq> emptyObj"
  with False show ?thesis
    by (simp add: updateChild_def map_of_insort_key map_of_absent)
qed

lemma map_of_setChild: "map_of (setChild k v xs) j = (if j = k then Some v else map_of xs j)"
proof (cases "k \<in> set (map fst xs)")
  case True
  then obtain m where "map_of xs k = Some m"
    by (metis map_of_eq_None_iff not_None_eq set_map)
  with True show ?thesis
    by (simp add: setChild_def map_of_markAll[of k "\<lambda>m. v"])
next
  case False
  then show ?thesis by (simp add: setChild_def map_of_insort_key)
qed

lemma map_of_removeChild: "j \<noteq> k \<Longrightarrow> map_of (removeChild k xs) j = map_of xs j"
  by (induction xs) (auto simp: removeChild_def)

lemma statusAt_Update:
  "statusAt (apply_op (Update r (statusOnly st)) s) q j
     = (if r = q @ [j] then Some st else statusAt s q j)"
proof (cases "rev r")
  case Nil
  then show ?thesis by (simp add: apply_op_def)
next
  case (Cons k rp)
  then have r: "r = rev rp @ [k]" by (metis rev_rev_ident rev.simps(2))
  show ?thesis
    by (auto simp: r apply_op_def statusAt_def map_of_updateChild statusOnly_nonempty
        status_mergeObj split: option.splits)
      (simp_all add: statusOnly_def emptyObj_def)
qed

lemma rank_le_Seen: "rank x \<le> rank (Some Seen)"
  by (cases x rule: rank.cases) simp_all

lemma Seen_update_monotone:
  "rank (statusAt s q j) \<le> rank (statusAt (apply_op (Update r (statusOnly Seen)) s) q j)"
  using rank_le_Seen by (simp add: statusAt_Update del: rank.simps)

lemma Seen_updates_monotone:
  "\<forall>w \<in> set ws. \<exists>r. w = Update r (statusOnly Seen) \<Longrightarrow> monotone_at s ws q j"
proof (induction ws arbitrary: s)
  case Nil
  then show ?case by simp
next
  case (Cons w ws)
  then obtain r where "w = Update r (statusOnly Seen)" by auto
  with Cons show ?case by (simp add: Seen_update_monotone del: rank.simps)
qed

lemma Delivered_update_monotone:
  "statusAt s p k \<noteq> Some Seen \<Longrightarrow>
   rank (statusAt s q j) \<le> rank (statusAt (apply_op (Update (p @ [k]) (statusOnly Delivered)) s) q j)"
  by (cases "statusAt s p k" rule: rank.cases) (auto simp: statusAt_Update)

text \<open>
  Claim C1, as amended. The status of every message is monotone (Sent < Delivered < Seen)
  under every sequence of Seen updates, whatever their number, order and targets, and
  also when the sender's Delivered update for a message that is not yet Seen is applied
  before them.
\<close>

theorem status_monotone_amended:
  "(\<forall>w \<in> set ws. \<exists>r. w = Update r (statusOnly Seen)) \<longrightarrow>
     monotone_at s ws q j
     \<and> (statusAt s p k \<noteq> Some Seen \<longrightarrow>
          monotone_at s (Update (p @ [k]) (statusOnly Delivered) # ws) q j)"
  using Seen_updates_monotone Delivered_update_monotone by simp

lemmas send_defs = sendBtn_onclick_def issued_def
  trim_def is_ws_def hasUndefined_def cancelReply_def push_then_def statusAt_def

text \<open>
  Claim C1 as stated fails: u1 sends, u2's client sees the message and writes Seen, then
  u1's acknowledgement handler writes Delivered. Both writes are the ones the handlers
  issue; applied in this order the status goes from Seen back to Delivered.
\<close>

theorem status_downgrade_counterexample:
  "seenByB = [Update (chatAB @ [''m1'']) (statusOnly Seen)]
   \<and> deliveredByA = [Update (chatAB @ [''m1'']) (statusOnly Delivered)]
   \<and> statusAt storeSent chatAB ''m1'' = Some Sent
   \<and> statusAt (apply_ops seenByB storeSent) chatAB ''m1'' = Some Seen
   \<and> statusAt (apply_ops (seenByB @ deliveredByA) storeSent) chatAB ''m1'' = Some Delivered
   \<and> \<not> monotone_at storeSent (seenByB @ deliveredByA) chatAB ''m1''"
  by (simp add: sendAB_def clientA_sent_def storeSent_def seenByB_def deliveredByA_def
      scenario_defs send_defs listener_defs)

theorem status_monotone_amended_witness:
  "seenByB @ seenByB = [Update (chatAB @ [''m1'']) (statusOnly Seen),
                         Update (chatAB @ [''m1'']) (statusOnly Seen)]
   \<and> statusAt storeSent chatAB ''m1'' = Some Sent
   \<and> monotone_at storeSent (seenByB @ seenByB) chatAB ''m1''
   \<and> monotone_at storeSent (deliveredByA @ seenByB @ seenByB) chatAB ''m1''"
  using status_monotone_amended[of "seenByB @ seenByB" storeSent chatAB "''m1''" chatAB "''m1''"]
  by (simp add: sendAB_def clientA_sent_def storeSent_def seenByB_def deliveredByA_def
      scenario_defs send_defs listener_defs)

section \<open>Sending and replying\<close>


lemma setChild_at_key: "e \<in> set (setChild k v xs) \<Longrightarrow> fst e = k \<Longrightarrow> snd e = v"
  by (cases e) (force simp: setChild_def set_insort_key split: if_splits)

lemma key_in_setChild: "k \<in> set (map fst (setChild k v xs))"
  by (force simp: setChild_def set_insort_key)

lemma setChild_changes: "k \<notin> set (map fst xs) \<Longrightarrow> setChild k v xs \<noteq> xs"
  using key_in_setChild[of k v xs] by auto

lemma localWrite_Push:
  "\<exists>cl1 ws. localWrite (Push p k msg) cl = Some (cl1, Push p k msg # ws)
     \<and> (senderId msg = Some (authUid (currentUser cl)) \<longrightarrow>
          (\<forall>w \<in> set ws. \<exists>j. j \<noteq> k \<and> w = Update (p @ [j]) (statusOnly Seen)))
     \<and> (p \<in> set (messageListeners cl) \<and> k \<notin> set (map fst (cache cl p)) \<longrightarrow>
          k \<in> set (map dataKey (messagesEl cl1)))"
proof (cases "p \<in> set (messageListeners cl)
              \<and> (notifyUnchanged cl \<or> setChild k msg (cache cl p) \<noteq> cache cl p)")
  case False
  then show ?thesis
    using setChild_changes[of k "cache cl p" msg]
    by (auto simp: localWrite_def Let_def affected_def apply_op_def)
next
  case True
  let ?cl1 = "cl\<lparr>cache := apply_op (Push p k msg) (cache cl)\<rparr>"
  have c0: "apply_op (Push p k msg) (cache cl) p = setChild k msg (cache cl p)" by (simp add: apply_op_def)
  have c1: "cache ?cl1 p = setChild k msg (cache cl p)" by (simp add: apply_op_def)
  obtain cl2 ws where r: "onMessagesValue p ?cl1 = Some (cl2, ws)"
    using onMessagesValue_returns by blast
  from onMessagesValue_keys[OF r] have "k \<in> set (map dataKey (messagesEl cl2))"
    using key_in_setChild[of k msg "cache cl p"] by (simp add: c0)
  moreover have "senderId msg = Some (authUid (currentUser cl)) \<longrightarrow>
          (\<forall>w \<in> set ws. \<exists>j. j \<noteq> k \<and> w = Update (p @ [j]) (statusOnly Seen))"
  proof (intro impI ballI)
    fix w assume mine: "senderId msg = Some (authUid (currentUser cl))" and w: "w \<in> set ws"
    from onMessagesValue_writes[OF r] w obtain e where
      e: "e \<in> set (setChild k msg (cache cl p))" "unseen (authUid (currentUser cl)) e"
         "w = Update (p @ [fst e]) (statusOnly Seen)"
      by (auto simp: c0)
    from setChild_at_key[OF e(1)] e(2) mine have "fst e \<noteq> k" by (auto simp: unseen_def)
    with e(3) show "\<exists>j. j \<noteq> k \<and> w = Update (p @ [j]) (statusOnly Seen)" by blast
  qed
  ultimately show ?thesis
    using True r by (auto simp: localWrite_def Let_def affected_def apply_op_def)
qed

lemma sendBtn_onclick_sent:
  assumes "trim (messageInputValue cl) \<noteq> []" "\<not> hasUndefined (replyTo cl)"
  shows "\<exists>cl1 msg ws.
      sendBtn_onclick now k cl
        = Some (Returned (cl1\<lparr>messageInputValue := [], replyTo := None, replyPreviewShown := False\<rparr>,
                          Push (messagesPath cl) k msg # ws
                            @ [SetTyping (typingPath cl @ [authUid (currentUser cl)]) False]))
      \<and> localWrite (Push (messagesPath cl) k msg) cl = Some (cl1, Push (messagesPath cl) k msg # ws)
      \<and> senderId msg = Some (authUid (currentUser cl))
      \<and> msgText msg = Some (trim (messageInputValue cl)) \<and> status msg = Some Sent
      \<and> msgReplyTo msg = replyTo cl
      \<and> (\<forall>w \<in> set ws. \<exists>j. j \<noteq> k \<and> w = Update (messagesPath cl @ [j]) (statusOnly Seen))
      \<and> (messagesPath cl \<in> set (messageListeners cl) \<and> k \<notin> set (map fst (cache cl (messagesPath cl)))
           \<longrightarrow> k \<in> set (map dataKey (messagesEl cl1)))"
proof -
  let ?msg = "\<lparr>senderId = Some (authUid (currentUser cl)),
               senderName = Some (displayName (currentUser cl)),
               senderPic = Some (case authPhotoURL (currentUser cl) of None \<Rightarrow> [] | Some u \<Rightarrow> u),
               msgText = Some (trim (messageInputValue cl)),
               timestamp = Some now, status = Some Sent, msgReplyTo = replyTo cl\<rparr>"
  from localWrite_Push[of "messagesPath cl" k ?msg cl] obtain cl1 ws where
    r: "localWrite (Push (messagesPath cl) k ?msg) cl = Some (cl1, Push (messagesPath cl) k ?msg # ws)"
    and w: "\<forall>w \<in> set ws. \<exists>j. j \<noteq> k \<and> w = Update (messagesPath cl @ [j]) (statusOnly Seen)"
    and v: "messagesPath cl \<in> set (messageListeners cl) \<and> k \<notin> set (map fst (cache cl (messagesPath cl)))
           \<longrightarrow> k \<in> set (map dataKey (messagesEl cl1))"
    by auto
  have "sendBtn_onclick now k cl
        = Some (Returned (cl1\<lparr>messageInputValue := [], replyTo := None, replyPreviewShown := False\<rparr>,
                          Push (messagesPath cl) k ?msg # ws
                            @ [SetTyping (typingPath cl @ [authUid (currentUser cl)]) False]))"
    using assms r by (simp add: sendBtn_onclick_def Let_def cancelReply_def)
  with r w v show ?thesis
    by (intro exI[of _ cl1] exI[of _ ?msg] exI[of _ ws]) simp
qed

lemma Seen_updates_elsewhere:
  "\<forall>w \<in> set ws. \<exists>j. j \<noteq> k \<and> w = Update (p @ [j]) (statusOnly Seen) \<Longrightarrow>
   map_of (apply_ops ws s p) k = map_of (s p) k"
proof (induction ws arbitrary: s)
  case Nil
  then show ?case by (simp add: apply_ops_def)
next
  case (Cons w ws)
  then obtain j where j: "j \<noteq> k" "w = Update (p @ [j]) (statusOnly Seen)" by auto
  have "map_of (apply_op w s p) k = map_of (s p) k"
    using j by (simp add: apply_op_def map_of_updateChild statusOnly_nonempty)
  moreover from Cons have "map_of (apply_ops ws (apply_op w s) p) k = map_of (apply_op w s p) k" by simp
  ultimately show ?case by (simp add: apply_ops_def)
qed

lemma apply_ops_append: "apply_ops (xs @ ys) s = apply_ops ys (apply_ops xs s)"
  by (simp add: apply_ops_def)

lemma apply_ops_Cons: "apply_ops (w # ws) s = apply_ops ws (apply_op w s)"
  by (simp add: apply_ops_def)

lemma handleReplyClick_text:
  "msgText m = Some body \<Longrightarrow>
   handleReplyClick m k cl
     = Returned (cl\<lparr>replyTo := Some \<lparr>refKey = k, refText = Some body, refSenderName = senderName m\<rparr>,
                    replyTextContent := str_undefined (senderName m) @ '': '' @ take 50 body,
                    replyPreviewShown := True\<rparr>)"
  by (simp add: handleReplyClick_def Let_def)

lemma messagesPath_reply:
  "messagesPath (cl\<lparr>replyTo := r, replyTextContent := t, replyPreviewShown := b, messageInputValue := i\<rparr>)
     = messagesPath cl"
  by (simp add: messagesPath_def)

text \<open>
  Claim C8 as stated fails: replying to a message of 51 characters stores all 51 in the
  reply reference; only the preview shown while composing is cut to 50.
\<close>

theorem reply_snippet_counterexample:
  "pushedReplyRef (issued (sendBtn_onclick 100 ''m6''
      ((result (handleReplyClick (textMessage userB longBody 90 Delivered) ''m5'' clientA))
         \<lparr>messageInputValue := ''ok''\<rparr>)))
     = Some \<lparr>refKey = ''m5'', refText = Some longBody, refSenderName = Some ''B''\<rparr>
   \<and> length longBody = 51
   \<and> longBody \<noteq> take 50 longBody
   \<and> replyTextContent (result (handleReplyClick (textMessage userB longBody 90 Delivered) ''m5'' clientA))
       = ''B: '' @ take 50 longBody"
proof -
  have t: "msgText (textMessage userB longBody 90 Delivered) = Some longBody"
    "senderName (textMessage userB longBody 90 Delivered) = Some ''B''"
    by (simp_all add: textMessage_def userB_def)
  have l: "length longBody = 51" by (simp add: longBody_def)
  then have "length (take 50 longBody) = 50" by simp
  with l have n: "longBody \<noteq> take 50 longBody" by (metis numeral_eq_iff semiring_norm(88,89))
  let ?cl = "(result (handleReplyClick (textMessage userB longBody 90 Delivered) ''m5'' clientA))
               \<lparr>messageInputValue := ''ok''\<rparr>"
  have h: "trim (messageInputValue ?cl) \<noteq> []" "\<not> hasUndefined (replyTo ?cl)"
    "replyTo ?cl = Some \<lparr>refKey = ''m5'', refText = Some longBody, refSenderName = Some ''B''\<rparr>"
    by (simp_all add: handleReplyClick_text[OF t(1)] t(2) trim_def is_ws_def hasUndefined_def)
  from sendBtn_onclick_sent[OF h(1) h(2), of 100 "''m6''"] h(3)
  have "pushedReplyRef (issued (sendBtn_onclick 100 ''m6'' ?cl))
          = Some \<lparr>refKey = ''m5'', refText = Some longBody, refSenderName = Some ''B''\<rparr>"
    by (auto simp: issued_def pushedReplyRef_def)
  with l n show ?thesis
    by (simp add: handleReplyClick_text[OF t(1)] t(2) str_undefined_def)
qed

text \<open>
  Claim C8, as amended. A reply to a message with a body and a sender name carries, inline
  in the appended message, the reference made of the target's key, its whole body and its
  sender's name; the preview shown while composing is the name and the first 50
  characters. Removing the target afterwards leaves the stored reference as it is.
\<close>

theorem reply_ref_amended:
  "msgText m = Some body \<and> senderName m = Some sn \<and> trim inp \<noteq> [] \<and> k' \<noteq> k \<longrightarrow>
     replyTextContent (result (handleReplyClick m k cl)) = sn @ '': '' @ take 50 body
     \<and> pushedReplyRef (issued (sendBtn_onclick now k'
          ((result (handleReplyClick m k cl))\<lparr>messageInputValue := inp\<rparr>)))
         = Some \<lparr>refKey = k, refText = Some body, refSenderName = Some sn\<rparr>
     \<and> map_option msgReplyTo (map_of (apply_ops
          (issued (sendBtn_onclick now k'
             ((result (handleReplyClick m k cl))\<lparr>messageInputValue := inp\<rparr>))
           @ [Remove (messagesPath cl @ [k])]) s (messagesPath cl)) k')
         = Some (Some \<lparr>refKey = k, refText = Some body, refSenderName = Some sn\<rparr>)"
proof (intro impI, elim conjE)
  assume h: "msgText m = Some body" "senderName m = Some sn" "trim inp \<noteq> []" "k' \<noteq> k"
  let ?cl1 = "(result (handleReplyClick m k cl))\<lparr>messageInputValue := inp\<rparr>"
  let ?ref = "\<lparr>refKey = k, refText = Some body, refSenderName = Some sn\<rparr>"
  let ?p = "messagesPath cl"
  have c1: "?cl1 = cl\<lparr>replyTo := Some ?ref,
                      replyTextContent := sn @ '': '' @ take 50 body,
                      replyPreviewShown := True, messageInputValue := inp\<rparr>"
    by (simp add: handleReplyClick_text[OF h(1)] h(2) str_undefined_def)
  have p: "messagesPath ?cl1 = ?p"
    unfolding c1 by (rule messagesPath_reply)
  have g: "trim (messageInputValue ?cl1) \<noteq> []" "\<not> hasUndefined (replyTo ?cl1)" "replyTo ?cl1 = Some ?ref"
    using h(3) by (simp_all add: c1 hasUndefined_def)
  from sendBtn_onclick_sent[OF g(1) g(2), of now k'] obtain cl2 msg ws where
    s1: "issued (sendBtn_onclick now k' ?cl1)
          = Push ?p k' msg # ws @ [SetTyping (typingPath ?cl1 @ [authUid (currentUser ?cl1)]) False]"
    and s2: "msgReplyTo msg = Some ?ref"
    and s3: "\<forall>w \<in> set ws. \<exists>j. j \<noteq> k' \<and> w = Update (?p @ [j]) (statusOnly Seen)"
    by (auto simp: issued_def p g(3))
  have a: "replyTextContent (result (handleReplyClick m k cl)) = sn @ '': '' @ take 50 body"
    by (simp add: handleReplyClick_text[OF h(1)] h(2) str_undefined_def)
  have b: "pushedReplyRef (issued (sendBtn_onclick now k' ?cl1)) = Some ?ref"
    by (simp add: s1 s2 pushedReplyRef_def)
  let ?s1 = "apply_op (Push ?p k' msg) s"
  have "map_of (?s1 ?p) k' = Some msg" by (simp add: apply_op_def map_of_setChild)
  with Seen_updates_elsewhere[OF s3, of ?s1] have "map_of (apply_ops ws ?s1 ?p) k' = Some msg" by simp
  then have "map_of (apply_ops (Push ?p k' msg # ws
                @ [SetTyping (typingPath ?cl1 @ [authUid (currentUser ?cl1)]) False]
                @ [Remove (?p @ [k])]) s ?p) k' = Some msg"
    using h(4) by (simp add: apply_ops_Cons apply_ops_append)
      (simp add: apply_ops_def apply_op_def map_of_removeChild)
  then have c: "map_option msgReplyTo (map_of (apply_ops
          (issued (sendBtn_onclick now k' ?cl1) @ [Remove (?p @ [k])]) s ?p) k') = Some (Some ?ref)"
    by (simp add: s1 s2)
  from a b c show "replyTextContent (result (handleReplyClick m k cl)) = sn @ '': '' @ take 50 body
     \<and> pushedReplyRef (issued (sendBtn_onclick now k' ?cl1)) = Some ?ref
     \<and> map_option msgReplyTo (map_of (apply_ops
          (issued (sendBtn_onclick now k' ?cl1) @ [Remove (?p @ [k])]) s ?p) k') = Some (Some ?ref)"
    by simp
qed

theorem reply_ref_amended_witness:
  "msgText (textMessage userB ''lunch?'' 90 Delivered) = Some ''lunch?''
   \<and> senderName (textMessage userB ''lunch?'' 90 Delivered) = Some ''B''
   \<and> trim ''ok'' \<noteq> [] \<and> ''m6'' \<noteq> ''m5''
   \<and> pushedReplyRef (issued (sendBtn_onclick 100 ''m6''
          ((result (handleReplyClick (textMessage userB ''lunch?'' 90 Delivered) ''m5'' clientA))
             \<lparr>messageInputValue := ''ok''\<rparr>)))
       = Some \<lparr>refKey = ''m5'', refText = Some ''lunch?'', refSenderName = Some ''B''\<rparr>
   \<and> map fst (apply_ops
          (issued (sendBtn_onclick 100 ''m6''
             ((result (handleReplyClick (textMessage userB ''lunch?'' 90 Delivered) ''m5'' clientA))
                \<lparr>messageInputValue := ''ok''\<rparr>))
           @ [Remove (chatAB @ [''m5''])])
          ((\<lambda>p. [])(chatAB := [(''m5'', textMessage userB ''lunch?'' 90 Delivered)])) chatAB) = [''m6'']
   \<and> map_option msgReplyTo (map_of (apply_ops
          (issued (sendBtn_onclick 100 ''m6''
             ((result (handleReplyClick (textMessage userB ''lunch?'' 90 Delivered) ''m5'' clientA))
                \<lparr>messageInputValue := ''ok''\<rparr>))
           @ [Remove (messagesPath clientA @ [''m5''])])
          ((\<lambda>p. [])(chatAB := [(''m5'', textMessage userB ''lunch?'' 90 Delivered)])) (messagesPath clientA)) ''m6'')
       = Some (Some \<lparr>refKey = ''m5'', refText = Some ''lunch?'', refSenderName = Some ''B''\<rparr>)"
  using reply_ref_amended[of "textMessage userB ''lunch?'' 90 Delivered" "''lunch?''" "''B''" "''ok''"
      "''m6''" "''m5''" clientA 100 "(\<lambda>p. [])(chatAB := [(''m5'', textMessage userB ''lunch?'' 90 Delivered)])"]
  by (simp add: scenario_defs send_defs listener_defs handleReplyClick_def pushedReplyRef_def)




end
